theory Spec2Isabelle
  imports Complex_Main "HOL-Library.Multiset" "HOL-Library.Char_ord" "HOL-Library.List_Lexorder"
begin

section \<open>Data model\<close>

text \<open>
  The skin rig core keeps its nodes as Python objects that are shared by reference. In this
  development an object is identified by its index in the merger's registration list
  (\<open>NodeMerger.nodes\<close>), and the list itself is the store: every reference to a node is such
  an index. Rigs are identified by a number as well, and a table \<open>R\<close> gives the attributes of
  each rig that the core reads. Vectors and quaternions are tuples of real numbers, so the
  arithmetic of \<open>mathutils\<close> is the exact one.
\<close>

type_synonym vec3 = "real \<times> real \<times> real"
type_synonym quat = "real \<times> real \<times> real \<times> real"
type_synonym name_split = "string \<times> int \<times> int"

text \<open>
  The exceptions the modelled code can raise. \<open>MetarigError\<close> carries the four arguments its
  message is formatted from: two classes, a node name and a bone name.
\<close>

datatype error =
    ValueError
  | AssertionError
  | AttributeError
  | KeyError
  | RecursionError
  | IndexError
  | ZeroDivisionError
  | MetarigError nat nat string string

datatype ControlNodeLayer = FREE | MIDDLE_PIVOT | TWEAK

fun layer_value :: "ControlNodeLayer \<Rightarrow> int" where
  "layer_value ControlNodeLayer.FREE = 0"
| "layer_value ControlNodeLayer.MIDDLE_PIVOT = 10"
| "layer_value ControlNodeLayer.TWEAK = 20"

datatype ControlNodeIcon = TWEAK | MIDDLE_PIVOT | FREE | CUSTOM

fun icon_value :: "ControlNodeIcon \<Rightarrow> int" where
  "icon_value ControlNodeIcon.TWEAK = 0"
| "icon_value ControlNodeIcon.MIDDLE_PIVOT = 1"
| "icon_value ControlNodeIcon.FREE = 2"
| "icon_value ControlNodeIcon.CUSTOM = 3"

text \<open>The classes of nodes: \<open>isinstance(node, MainMergeNode)\<close> holds of the first two.\<close>

datatype node_class = MainMergeNode | ControlBoneNode | BaseControlQueryNode

record rig_obj =
  base_bone :: string
  chain_priority :: int
  final_control_node_rotation :: quat

record node =
  node_class :: node_class
  rig :: nat
  name :: string
  point :: vec3
  group_class :: nat
  name_split :: name_split
  node_size :: real
  layer :: ControlNodeLayer
  icon :: ControlNodeIcon
  rotation :: "quat option"
  merged_into :: "nat option"
  merged :: "nat list"
  merged_master :: "nat option"
  mirror_siblings :: "(name_split \<times> nat) list option"

type_synonym store = "node list"

text \<open>
  The state in which the constructors leave a node. \<open>MergeGroup\<close> is the group class of
  every node class of the repository; \<open>merged_master\<close> and \<open>mirror_siblings\<close> are attributes
  that do not exist before \<open>merge_done\<close>. The split name and the size come from the rig's
  bones and are arguments here.
\<close>

definition MergeGroup :: nat where
  "MergeGroup = 0"

definition new_node ::
  "node_class \<Rightarrow> nat \<Rightarrow> string \<Rightarrow> vec3 \<Rightarrow> name_split \<Rightarrow> real \<Rightarrow> ControlNodeLayer \<Rightarrow> ControlNodeIcon
   \<Rightarrow> node" where
  "new_node c r nm p ns sz l i =
     \<lparr>node_class = c, rig = r, name = nm, point = p, group_class = MergeGroup, name_split = ns,
      node_size = sz, layer = l, icon = i, rotation = None, merged_into = None, merged = [],
      merged_master = None, mirror_siblings = None\<rparr>"

section \<open>Compatibility and priority of control nodes\<close>

text \<open>
  \<open>can_merge_into\<close> and \<open>get_merge_priority\<close> are methods, overridden by \<open>ControlBoneNode\<close>;
  the model dispatches on the class of \<open>self\<close>.
\<close>

definition can_merge_into :: "(nat \<Rightarrow> rig_obj) \<Rightarrow> node \<Rightarrow> node \<Rightarrow> bool" where
  "can_merge_into R self other =
     (case node_class self of
        ControlBoneNode \<Rightarrow>
          (let dprio = chain_priority (R (rig self)) - chain_priority (R (rig other))
           in dprio \<le> 0 \<and>
              (layer_value (layer self) \<le> layer_value (layer other) \<or> dprio < 0) \<and> True)
      | _ \<Rightarrow> True)"

definition get_merge_priority :: "node \<Rightarrow> node \<Rightarrow> int" where
  "get_merge_priority self other =
     (case node_class self of
        ControlBoneNode \<Rightarrow>
          (if layer_value (layer self) \<le> layer_value (layer other)
           then - \<bar>layer_value (layer self) - layer_value (layer other)\<bar>
           else - \<bar>layer_value (layer self) - layer_value (layer other)\<bar> - 100)
      | MainMergeNode \<Rightarrow> 0
      | BaseControlQueryNode \<Rightarrow> layer_value (layer other))"

section \<open>Python helpers\<close>

text \<open>
  \<open>max(xs, key=f)\<close> raises \<open>ValueError\<close> on an empty sequence and otherwise returns the first
  element whose key is maximal.
\<close>

fun py_max :: "('a \<Rightarrow> 'k::linorder) \<Rightarrow> 'a list \<Rightarrow> error + 'a" where
  "py_max key [] = Inl ValueError"
| "py_max key (x # xs) = Inr (foldl (\<lambda>b y. if key b < key y then y else b) x xs)"

text \<open>A loop whose body may raise: the first exception ends it.\<close>

fun fold_err :: "('a \<Rightarrow> 's \<Rightarrow> error + 's) \<Rightarrow> 'a list \<Rightarrow> 's \<Rightarrow> error + 's" where
  "fold_err f [] s = Inr s"
| "fold_err f (x # xs) s = (case f x s of Inl e \<Rightarrow> Inl e | Inr s' \<Rightarrow> fold_err f xs s')"

text \<open>
  A Python dict keeps its keys in insertion order; assigning to a key that is present keeps
  the key's place. It is an association list, written by \<open>dict_set\<close> and read by \<open>map_of\<close>.
\<close>

fun dict_set :: "('k \<times> 'v) list \<Rightarrow> 'k \<Rightarrow> 'v \<Rightarrow> ('k \<times> 'v) list" where
  "dict_set [] k v = [(k, v)]"
| "dict_set ((k', v') # d) k v = (if k' = k then (k, v) # d else (k', v') # dict_set d k v)"

definition vec_add :: "vec3 \<Rightarrow> vec3 \<Rightarrow> vec3" where
  "vec_add a b = (case a of (ax, ay, az) \<Rightarrow> case b of (bx, by, bz) \<Rightarrow> (ax + bx, ay + by, az + bz))"

definition vec_div :: "vec3 \<Rightarrow> real \<Rightarrow> vec3" where
  "vec_div a d = (case a of (ax, ay, az) \<Rightarrow> (ax / d, ay / d, az / d))"

text \<open>The sum of the vectors \<open>f c\<close> over a set of objects \<open>c\<close>.\<close>

definition vec_sum :: "('a \<Rightarrow> vec3) \<Rightarrow> 'a set \<Rightarrow> vec3" where
  "vec_sum f S = (\<Sum>c\<in>S. fst (f c), \<Sum>c\<in>S. fst (snd (f c)), \<Sum>c\<in>S. snd (snd (f c)))"

section \<open>Main merge nodes\<close>

definition is_main :: "node \<Rightarrow> bool" where
  "is_main n = (node_class n \<noteq> BaseControlQueryNode)"

definition merge_into :: "store \<Rightarrow> nat \<Rightarrow> nat \<Rightarrow> store" where
  "merge_into st self other = st[self := (st ! self)\<lparr>merged_into := Some other\<rparr>]"

definition merge_from :: "store \<Rightarrow> nat \<Rightarrow> nat \<Rightarrow> store" where
  "merge_from st self other = st[self := (st ! self)\<lparr>merged := merged (st ! self) @ [other]\<rparr>]"

definition get_merged_siblings :: "store \<Rightarrow> nat \<Rightarrow> error + nat list" where
  "get_merged_siblings st self =
     (case merged_master (st ! self) of
        None \<Rightarrow> Inl AttributeError
      | Some master \<Rightarrow> Inr (master # merged (st ! master)))"

text \<open>
  \<open>ControlBoneNode.find_mirror_siblings\<close>: the siblings with the base name of \<open>self\<close>, keyed by
  their split names, and the assertion that \<open>self\<close> is the one found under its own split name.
  The sides and the merged name computed after the assertion are not part of the model.
\<close>

definition find_mirror_siblings :: "store \<Rightarrow> nat \<Rightarrow> error + store" where
  "find_mirror_siblings st self =
     (case get_merged_siblings st self of
        Inl e \<Rightarrow> Inl e
      | Inr sibs \<Rightarrow>
          (let ms = foldl (\<lambda>d n. if fst (name_split (st ! n)) = fst (name_split (st ! self))
                                 then dict_set d (name_split (st ! n)) n else d) [] sibs
           in case map_of ms (name_split (st ! self)) of
                None \<Rightarrow> Inl KeyError
              | Some n \<Rightarrow>
                  if n \<noteq> self then Inl AssertionError
                  else Inr (st[self := (st ! self)\<lparr>mirror_siblings := Some ms\<rparr>])))"

text \<open>
  \<open>merge_done\<close> sets \<open>merged_master\<close> and cascades to the children; a \<open>ControlBoneNode\<close> then
  looks for its mirror siblings; the caches of parents that a master empties first are kept
  apart from the node, with the parent mechanisms below. The cascade is a recursion over the
  object graph, bounded
  here by its nesting depth: the first argument is the depth still allowed, and running out
  of it is Python's \<open>RecursionError\<close>.
\<close>

fun merge_done :: "nat \<Rightarrow> store \<Rightarrow> nat \<Rightarrow> error + store" where
  "merge_done 0 st self = Inl RecursionError"
| "merge_done (Suc k) st self =
     (let st1 = st[self := (st ! self)\<lparr>merged_master :=
                   Some (case merged_into (st ! self) of None \<Rightarrow> self | Some m \<Rightarrow> m)\<rparr>]
      in case fold_err (\<lambda>child s. merge_done k s child) (merged (st1 ! self)) st1 of
           Inl e \<Rightarrow> Inl e
         | Inr st2 \<Rightarrow>
             if node_class (st2 ! self) = ControlBoneNode then find_mirror_siblings st2 self
             else Inr st2)"

section \<open>MergeGroup\<close>

text \<open>
  \<open>rig_table\<close> is a \<open>defaultdict(list)\<close> keyed by the rig: a key that is missing is added at
  the end with an empty list, and the node is appended to the list of its rig.
\<close>

fun rig_table_append :: "(nat \<times> nat list) list \<Rightarrow> nat \<Rightarrow> nat \<Rightarrow> (nat \<times> nat list) list" where
  "rig_table_append [] r n = [(r, [n])]"
| "rig_table_append ((r', ns) # tab) r n =
     (if r' = r then (r', ns @ [n]) # tab else (r', ns) # rig_table_append tab r n)"

definition make_rig_table :: "store \<Rightarrow> nat list \<Rightarrow> (nat \<times> nat list) list" where
  "make_rig_table st main_nodes = foldl (\<lambda>tab n. rig_table_append tab (rig (st ! n)) n) [] main_nodes"

text \<open>
  \<open>merge_table\<close> maps every main node to the set of nodes that chose it as their target. The
  inner loop of the table's construction goes over the buckets of the other rigs; \<open>max\<close> is
  applied to the allowed targets of each bucket as they are, also when there is none.
\<close>

type_synonym merge_table = "nat \<Rightarrow> nat set"

fun merge_targets ::
  "(nat \<Rightarrow> rig_obj) \<Rightarrow> store \<Rightarrow> nat \<Rightarrow> (nat \<times> nat list) list \<Rightarrow> merge_table \<Rightarrow> error + merge_table" where
  "merge_targets R st node [] mt = Inr mt"
| "merge_targets R st node ((r, tgt_nodes) # tab) mt =
     (if r \<noteq> rig (st ! node) then
        (case py_max (\<lambda>n. get_merge_priority (st ! node) (st ! n))
                     [n \<leftarrow> tgt_nodes. can_merge_into R (st ! node) (st ! n)] of
           Inl e \<Rightarrow> Inl e
         | Inr tgt \<Rightarrow> merge_targets R st node tab (mt(tgt := insert node (mt tgt))))
      else merge_targets R st node tab mt)"

fun build_merge_table ::
  "(nat \<Rightarrow> rig_obj) \<Rightarrow> store \<Rightarrow> (nat \<times> nat list) list \<Rightarrow> nat list \<Rightarrow> merge_table \<Rightarrow> error + merge_table" where
  "build_merge_table R st tab [] mt = Inr mt"
| "build_merge_table R st tab (node # nodes) mt =
     (case merge_targets R st node tab mt of
        Inl e \<Rightarrow> Inl e
      | Inr mt' \<Rightarrow> build_merge_table R st tab nodes mt')"

text \<open>
  Linking the children of the chosen master: the master's point becomes the sum of its point
  and the points of the children, divided by their number plus one; then each child, in the
  order of \<open>main_nodes\<close>, takes the master's point and the two are linked.
\<close>

definition link_child :: "nat \<Rightarrow> store \<Rightarrow> nat \<Rightarrow> store" where
  "link_child best st child =
     (let st1 = st[child := (st ! child)\<lparr>point := point (st ! best)\<rparr>];
          st2 = merge_from st1 best child
      in merge_into st2 child best)"

definition link_children :: "nat list \<Rightarrow> store \<Rightarrow> nat \<Rightarrow> nat set \<Rightarrow> store" where
  "link_children main_nodes st best child_set =
     (let st1 = st[best := (st ! best)\<lparr>point :=
                   vec_div (vec_add (point (st ! best)) (vec_sum (\<lambda>c. point (st ! c)) child_set))
                           (real (card child_set + 1))\<rparr>]
      in foldl (link_child best) st1 [n \<leftarrow> main_nodes. n \<in> child_set])"

text \<open>
  The reduction loop of \<open>build\<close>. Its state is the store, the merge table, the set of pending
  nodes, the output sequence shared with the merger and the group's own list of final nodes.
  The depth allowed to \<open>merge_done\<close> is more than the number of objects, which a cascade that
  is not cyclic never reaches.
\<close>

function reduce_loop ::
  "nat list \<Rightarrow> store \<Rightarrow> merge_table \<Rightarrow> nat set \<Rightarrow> nat list \<Rightarrow> nat list
   \<Rightarrow> error + (store \<times> nat list \<times> nat list)" where
  "reduce_loop main_nodes st mt pending final_nodes self_final =
     (if pending = {} then Inr (st, final_nodes, self_final)
      else
        (case py_max (\<lambda>n. card (mt n)) [n \<leftarrow> main_nodes. n \<in> pending] of
           Inl e \<Rightarrow> Inl e
         | Inr best \<Rightarrow>
             (let child_set = mt best;
                  st1 = link_children main_nodes st best child_set
              in case merge_done (Suc (length st1)) st1 best of
                   Inl e \<Rightarrow> Inl e
                 | Inr st2 \<Rightarrow>
                     (let pending' = (pending - {best}) - child_set
                      in reduce_loop main_nodes st2 (\<lambda>n. mt n \<inter> pending') pending'
                           (final_nodes @ [best]) (self_final @ [best])))))"
  by pat_completeness auto
termination
proof (relation "measure (\<lambda>(main_nodes, st, mt, pending, final_nodes, self_final).
                            length [n \<leftarrow> main_nodes. n \<in> pending])", goal_cases)
  case 1
  show ?case by simp
next
  case (2 main_nodes st mt pending final_nodes self_final best child_set st1 st2 pending')
  have fold_mem: "foldl (\<lambda>b y. if key b < key y then y else b) z zs \<in> set (z # zs)"
    for key :: "nat \<Rightarrow> nat" and z zs
    by (induction zs arbitrary: z) auto
  have "best \<in> set [n \<leftarrow> main_nodes. n \<in> pending]"
  proof (cases "[n \<leftarrow> main_nodes. n \<in> pending]")
    case Nil
    with 2(2) show ?thesis by simp
  next
    case (Cons z zs)
    with 2(2) fold_mem[of "\<lambda>n. card (mt n)" z zs] show ?thesis by simp
  qed
  then have b: "best \<in> set main_nodes" "best \<in> pending"
    by auto
  have "length [n \<leftarrow> main_nodes. n \<in> pending'] < length [n \<leftarrow> main_nodes. n \<in> pending]"
  proof -
    have "[n \<leftarrow> main_nodes. n \<in> pending'] = [n \<leftarrow> [n \<leftarrow> main_nodes. n \<in> pending]. n \<in> pending']"
      using 2(6) by (auto intro: filter_cong)
    moreover have "length [n \<leftarrow> [n \<leftarrow> main_nodes. n \<in> pending]. n \<in> pending']
                   < length [n \<leftarrow> main_nodes. n \<in> pending]"
      using b 2(6) by (intro length_filter_less[where x = best]) auto
    ultimately show ?thesis by simp
  qed
  then show ?case by simp
qed

declare reduce_loop.simps [simp del]

text \<open>
  \<open>MergeGroup(nodes).build(final_nodes)\<close>: the constructor splits the nodes into main and query
  nodes; \<open>build\<close> returns the store, the extended output sequence and the group's final nodes.
\<close>

definition build ::
  "(nat \<Rightarrow> rig_obj) \<Rightarrow> store \<Rightarrow> nat list \<Rightarrow> nat list \<Rightarrow> error + (store \<times> nat list \<times> nat list)" where
  "build R st nodes final_nodes =
     (let main_nodes = [n \<leftarrow> nodes. is_main (st ! n)];
          query_nodes = [n \<leftarrow> nodes. \<not> is_main (st ! n)];
          rig_table = make_rig_table st main_nodes
      in case build_merge_table R st rig_table main_nodes (\<lambda>n. {}) of
           Inl e \<Rightarrow> Inl e
         | Inr merge_table \<Rightarrow>
             (case reduce_loop main_nodes st merge_table (set main_nodes) final_nodes [] of
                Inl e \<Rightarrow> Inl e
              | Inr (st', final_nodes', self_final) \<Rightarrow>
                  Inr (st', final_nodes' @ query_nodes, self_final)))"

section \<open>NodeMerger\<close>

text \<open>
  The spatial index: \<open>tree\<close> is the list of the points inserted, each under its position as
  index. \<open>KDTree.find_range(co, r)\<close> yields the indices of the points at distance at most \<open>r\<close>
  from \<open>co\<close> (\<open>r\<close> is not negative); distances are compared by their squares.
\<close>

definition epsilon :: real where
  "epsilon = 1 / 100000"

definition dist_sq :: "vec3 \<Rightarrow> vec3 \<Rightarrow> real" where
  "dist_sq a b =
     (case a of (ax, ay, az) \<Rightarrow> case b of (bx, by, bz) \<Rightarrow>
        (ax - bx) * (ax - bx) + (ay - by) * (ay - by) + (az - bz) * (az - bz))"

definition find_range :: "vec3 list \<Rightarrow> vec3 \<Rightarrow> real \<Rightarrow> nat list" where
  "find_range tree co r = [idx \<leftarrow> [0..<length tree]. dist_sq (tree ! idx) co \<le> r * r]"

text \<open>The inner \<open>while pending\<close> loop: the closure of the merge set under the range query.\<close>

function closure_loop :: "vec3 list \<Rightarrow> store \<Rightarrow> nat set \<Rightarrow> nat set \<Rightarrow> nat set" where
  "closure_loop tree nodes pending merge_set =
     (if pending = {} then merge_set
      else
        (let added = (\<Union>j\<in>pending. set (find_range tree (point (nodes ! j)) epsilon))
         in closure_loop tree nodes (added - merge_set) (merge_set \<union> added)))"
  by pat_completeness auto
termination
proof (relation "measure (\<lambda>(tree, nodes, pending, merge_set).
                  2 * card ({..<length tree} - merge_set) + (if pending = {} then 0 else 1))",
       goal_cases)
  case 1
  show ?case by simp
next
  case (2 tree nodes pending merge_set added)
  have sub: "added \<subseteq> {..<length tree}"
    using 2(2) by (auto simp: find_range_def)
  have le: "card ({..<length tree} - (merge_set \<union> added)) \<le> card ({..<length tree} - merge_set)"
    by (rule card_mono) auto
  show ?case
  proof (cases "added - merge_set = {}")
    case True
    with le 2(1) show ?thesis by simp
  next
    case False
    then obtain x where x: "x \<in> added" "x \<notin> merge_set" by auto
    with sub have "x \<in> {..<length tree} - merge_set" "x \<notin> {..<length tree} - (merge_set \<union> added)"
      by auto
    then have "{..<length tree} - (merge_set \<union> added) \<subset> {..<length tree} - merge_set"
      by auto
    then have "card ({..<length tree} - (merge_set \<union> added)) < card ({..<length tree} - merge_set)"
      by (intro psubset_card_mono) auto
    with False 2(1) show ?thesis by simp
  qed
qed

declare closure_loop.simps [simp del]

text \<open>
  The most derived group class of a cluster, or the conflict. \<open>issubclass\<close> is Python's
  relation between classes, a parameter of the model.
\<close>

fun group_class_loop ::
  "(nat \<Rightarrow> nat \<Rightarrow> bool) \<Rightarrow> (nat \<Rightarrow> rig_obj) \<Rightarrow> store \<Rightarrow> nat \<Rightarrow> nat list \<Rightarrow> error + nat" where
  "group_class_loop issubclass R st gcls [] = Inr gcls"
| "group_class_loop issubclass R st gcls (item # items) =
     (let cls = group_class (st ! item)
      in if issubclass cls gcls then group_class_loop issubclass R st cls items
         else if \<not> issubclass gcls cls then
           Inl (MetarigError gcls cls (name (st ! item)) (base_bone (R (rig (st ! item)))))
         else group_class_loop issubclass R st gcls items)"

definition find_group_class ::
  "(nat \<Rightarrow> nat \<Rightarrow> bool) \<Rightarrow> (nat \<Rightarrow> rig_obj) \<Rightarrow> store \<Rightarrow> nat list \<Rightarrow> error + nat" where
  "find_group_class issubclass R st merge_list =
     (case merge_list of
        [] \<Rightarrow> Inl IndexError
      | first # rest \<Rightarrow> group_class_loop issubclass R st (group_class (st ! first)) rest)"

record merge_group =
  group_cls :: nat
  group_nodes :: "nat list"
  group_final_nodes :: "nat list"

record node_merger =
  nodes :: store
  final_nodes :: "nat list"
  groups :: "merge_group list"
  frozen :: bool

definition register_node :: "node_merger \<Rightarrow> node \<Rightarrow> error + node_merger" where
  "register_node m n = (if frozen m then Inl AssertionError else Inr (m\<lparr>nodes := nodes m @ [n]\<rparr>))"

text \<open>
  The members of a cluster, sorted by name. The sort is stable, so members of equal name stay
  in the order in which Python iterates over the set of indices. That order is the one of the
  slots of the set's hash table and is a parameter here: \<open>slot S i\<close> is the place of \<open>i\<close> in the
  iteration over \<open>S\<close> (indices of equal place are listed in ascending order).
\<close>

definition make_merge_list :: "(nat set \<Rightarrow> nat \<Rightarrow> nat) \<Rightarrow> store \<Rightarrow> nat set \<Rightarrow> nat list" where
  "make_merge_list slot st merge_set =
     sort_key (\<lambda>i. name (st ! i)) (sort_key (slot merge_set) (sorted_list_of_set merge_set))"

text \<open>
  The outer loop of \<open>initialize\<close> over the indices still to visit. Every group is built by
  \<open>MergeGroup.build\<close>, the only \<open>build\<close> there is in the repository.
\<close>

fun initialize_loop ::
  "(nat set \<Rightarrow> nat \<Rightarrow> nat) \<Rightarrow> (nat \<Rightarrow> nat \<Rightarrow> bool) \<Rightarrow> (nat \<Rightarrow> rig_obj) \<Rightarrow> vec3 list \<Rightarrow> nat list
   \<Rightarrow> store \<Rightarrow> nat set \<Rightarrow> nat list \<Rightarrow> merge_group list
   \<Rightarrow> error + (store \<times> nat set \<times> nat list \<times> merge_group list)" where
  "initialize_loop slot issubclass R tree [] st processed fin grps = Inr (st, processed, fin, grps)"
| "initialize_loop slot issubclass R tree (i # is) st processed fin grps =
     (if i \<in> processed then initialize_loop slot issubclass R tree is st processed fin grps
      else
        (let merge_set = closure_loop tree st {i} {i}
         in if merge_set \<inter> processed \<noteq> {} then Inl AssertionError
            else
              (let merge_list = make_merge_list slot st merge_set
               in case find_group_class issubclass R st merge_list of
                    Inl e \<Rightarrow> Inl e
                  | Inr gcls \<Rightarrow>
                      (case build R st merge_list fin of
                         Inl e \<Rightarrow> Inl e
                       | Inr (st', fin', self_final) \<Rightarrow>
                           initialize_loop slot issubclass R tree is st' (processed \<union> merge_set) fin'
                             (grps @ [\<lparr>group_cls = gcls, group_nodes = merge_list,
                                       group_final_nodes = self_final\<rparr>])))))"

definition initialize ::
  "(nat set \<Rightarrow> nat \<Rightarrow> nat) \<Rightarrow> (nat \<Rightarrow> nat \<Rightarrow> bool) \<Rightarrow> (nat \<Rightarrow> rig_obj) \<Rightarrow> node_merger
   \<Rightarrow> error + node_merger" where
  "initialize slot issubclass R m =
     (let tree = map point (nodes m)
      in case initialize_loop slot issubclass R tree [0..<length (nodes m)] (nodes m) {} [] [] of
           Inl e \<Rightarrow> Inl e
         | Inr (st, processed, fin, grps) \<Rightarrow>
             Inr \<lparr>nodes = st, final_nodes = fin, groups = grps, frozen = True\<rparr>)"

section \<open>Size and orientation of a master control node\<close>

text \<open>
  Modelled from the spec: \<open>is_master_node\<close> is read by \<open>ControlBoneNode\<close> and defined nowhere in
  the sources at hand; a node is a master when it was not merged into another one.
\<close>

definition is_master_node :: "node \<Rightarrow> bool" where
  "is_master_node n = (merged_into n = None)"

definition quat_zero :: quat where
  "quat_zero = (0, 0, 0, 0)"

definition quat_add :: "quat \<Rightarrow> quat \<Rightarrow> quat" where
  "quat_add a b =
     (case a of (aw, ax, ay, az) \<Rightarrow> case b of (bw, bx, by, bz) \<Rightarrow>
        (aw + bw, ax + bx, ay + by, az + bz))"

text \<open>
  \<open>Quaternion.normalized()\<close>: the quaternion divided by its length; the library turns a
  quaternion of length zero into the unit quaternion \<open>(0, 1, 0, 0)\<close>.
\<close>

definition normalized :: "quat \<Rightarrow> quat" where
  "normalized q =
     (case q of (w, x, y, z) \<Rightarrow>
        (let len = sqrt (w * w + x * x + y * y + z * z)
         in if len \<noteq> 0 then (w / len, x / len, y / len, z / len) else (0, 1, 0, 0)))"

text \<open>\<open>get_rotation\<close> asks the rig for the rotation once and keeps it in the node.\<close>

definition get_rotation :: "(nat \<Rightarrow> rig_obj) \<Rightarrow> store \<Rightarrow> nat \<Rightarrow> store \<times> quat" where
  "get_rotation R st self =
     (case rotation (st ! self) of
        None \<Rightarrow>
          (let r = final_control_node_rotation (R (rig (st ! self)))
           in (st[self := (st ! self)\<lparr>rotation := Some r\<rparr>], r))
      | Some r \<Rightarrow> (st, r))"

text \<open>The sum of the rotations of a list of nodes, added to \<open>acc\<close> from the left.\<close>

fun sum_rotations :: "(nat \<Rightarrow> rig_obj) \<Rightarrow> store \<Rightarrow> quat \<Rightarrow> nat list \<Rightarrow> store \<times> quat" where
  "sum_rotations R st acc [] = (st, acc)"
| "sum_rotations R st acc (n # ns) =
     (case get_rotation R st n of (st', r) \<Rightarrow> sum_rotations R st' (quat_add acc r) ns)"

text \<open>
  The first part of \<open>ControlBoneNode.initialize\<close>, which computes the size and the orientation
  of a master; the matrix and the parents that the method builds afterwards are not part of
  this function.
\<close>

definition initialize_size_rotation :: "(nat \<Rightarrow> rig_obj) \<Rightarrow> store \<Rightarrow> nat \<Rightarrow> error + store" where
  "initialize_size_rotation R st self =
     (if is_master_node (st ! self) then
        (case get_merged_siblings st self of
           Inl e \<Rightarrow> Inl e
         | Inr sibling_list \<Rightarrow>
             (case mirror_siblings (st ! self) of
                None \<Rightarrow> Inl AttributeError
              | Some ms \<Rightarrow>
                  (case py_max (\<lambda>n. icon_value (icon (st ! n))) sibling_list of
                     Inl e \<Rightarrow> Inl e
                   | Inr best \<Rightarrow>
                       (case mirror_siblings (st ! best) of
                          None \<Rightarrow> Inl AttributeError
                        | Some bm \<Rightarrow>
                            if length bm = 0 then Inl ZeroDivisionError
                            else
                              (let st1 = st[self := (st ! self)\<lparr>node_size :=
                                            sum_list (map (\<lambda>n. node_size (st ! n)) (map snd bm))
                                              / real (length bm)\<rparr>];
                                   (st2, total) = sum_rotations R st1 quat_zero (map snd ms)
                               in Inr (st2[self := (st2 ! self)\<lparr>rotation :=
                                             Some (normalized total)\<rparr>]))))))
      else Inr st)"

section \<open>Parent mechanisms\<close>

text \<open>
  The target of a weighted contribution is a bone name or a \<open>LazyRef\<close>, whose equality is that
  of its first object and its arguments. A driver term is an expression with its variables;
  a deferred influence is a callable, compared as an object.
\<close>

datatype lazy_target = BoneName string | LazyRef nat "string list"

type_synonym driver_term = "string \<times> (string \<rightharpoonup> string)"

type_synonym copy_local_entry = "real \<times> driver_term list \<times> nat list"

type_synonym add_local_entry = "driver_term list \<times> driver_term list \<times> driver_term list"

text \<open>
  The two parent generators. The first field of each is the identity of the object, which no
  method reads. \<open>mch_bones\<close> does not exist before \<open>generate_bones\<close>.
\<close>

datatype parent =
    ControlBoneParentOrg (obj_id: nat) (org_bone: string)
  | ControlBoneParentOffset (obj_id: nat) (owner: nat) (wrapped: parent) (offset_node: nat)
      (copy_local: "(lazy_target \<times> copy_local_entry) list")
      (add_local: "(int list \<times> add_local_entry) list")
      (add_orientations: "(int list \<times> quat) list")
      (mch_bones: "string list option")

definition is_offset :: "parent \<Rightarrow> bool" where
  "is_offset p = (case p of ControlBoneParentOffset i ow w n cl al ao mb \<Rightarrow> True | _ \<Rightarrow> False)"

text \<open>The constructor of \<open>ControlBoneParentOffset\<close>; \<open>i\<close> is the identity of the new object.\<close>

definition new_offset :: "nat \<Rightarrow> nat \<Rightarrow> parent \<Rightarrow> nat \<Rightarrow> parent" where
  "new_offset i rg par nd = ControlBoneParentOffset i rg par nd [] [] [] None"

definition wrap :: "nat \<Rightarrow> nat \<Rightarrow> parent \<Rightarrow> nat \<Rightarrow> parent" where
  "wrap i ownr par nd = (if is_offset par then par else new_offset i ownr par nd)"

datatype influence = Number real | Callable nat

text \<open>
  \<open>add_copy_local_location(target, influence, influence_expr, influence_vars)\<close>; an expression
  that is absent or empty is false. The entry of a target that is new starts as \<open>[0, [], [] ]\<close>.
\<close>

definition add_copy_local_location ::
  "parent \<Rightarrow> lazy_target \<Rightarrow> influence \<Rightarrow> string option \<Rightarrow> (string \<rightharpoonup> string) \<Rightarrow> parent" where
  "add_copy_local_location p target infl influence_expr influence_vars =
     (case p of
        ControlBoneParentOffset i ow w n cl al ao mb \<Rightarrow>
          (let (c, drivers, lazyinf) =
                 (case map_of cl target of None \<Rightarrow> (0, [], []) | Some e \<Rightarrow> e);
               entry =
                 (if influence_expr \<noteq> None \<and> influence_expr \<noteq> Some []
                  then (c, drivers @ [(case influence_expr of Some e \<Rightarrow> e | None \<Rightarrow> [],
                                       influence_vars)], lazyinf)
                  else case infl of
                         Callable f \<Rightarrow> (c, drivers, lazyinf @ [f])
                       | Number x \<Rightarrow> (c + x, drivers, lazyinf))
           in ControlBoneParentOffset i ow w n (dict_set cl target entry) al ao mb)
      | _ \<Rightarrow> p)"

text \<open>
  Python's \<open>round\<close> of a number to an integer rounds a half to the even neighbour.
\<close>

definition py_round :: "real \<Rightarrow> int" where
  "py_round x = (if frac x = 1 / 2 then (if even \<lfloor>x\<rfloor> then \<lfloor>x\<rfloor> else \<lfloor>x\<rfloor> + 1) else round x)"

definition orientation_key :: "quat \<Rightarrow> int list" where
  "orientation_key q =
     (case q of (w, x, y, z) \<Rightarrow> map (\<lambda>c. py_round (c * 10000)) [w, x, y, z])"

text \<open>
  \<open>add_location_driver(orientation, index, expression, variables)\<close>; the entry of a key is a
  tuple of three lists, and an index outside of it raises \<open>IndexError\<close>.
\<close>

definition add_location_driver ::
  "parent \<Rightarrow> quat \<Rightarrow> int \<Rightarrow> string \<Rightarrow> (string \<rightharpoonup> string) \<Rightarrow> error + parent" where
  "add_location_driver p orientation index expression variables =
     (case p of
        ControlBoneParentOffset i ow w n cl al ao mb \<Rightarrow>
          (let key = orientation_key orientation;
               ao1 = (if map_of al key = None then dict_set ao key orientation else ao);
               (xs, ys, zs) = (case map_of al key of None \<Rightarrow> ([], [], []) | Some e \<Rightarrow> e);
               j = (if index < 0 then index + 3 else index)
           in if j = 0 then
                Inr (ControlBoneParentOffset i ow w n cl
                       (dict_set al key (xs @ [(expression, variables)], ys, zs)) ao1 mb)
              else if j = 1 then
                Inr (ControlBoneParentOffset i ow w n cl
                       (dict_set al key (xs, ys @ [(expression, variables)], zs)) ao1 mb)
              else if j = 2 then
                Inr (ControlBoneParentOffset i ow w n cl
                       (dict_set al key (xs, ys, zs @ [(expression, variables)])) ao1 mb)
              else Inl IndexError)
      | _ \<Rightarrow> Inr p)"

text \<open>
  \<open>ControlBoneParentOffset.__eq__\<close> and \<open>ControlBoneParentOrg.__eq__\<close>: dicts are equal when
  they hold the same values under the same keys, in any order.
\<close>

fun parent_eq :: "parent \<Rightarrow> parent \<Rightarrow> bool" where
  "parent_eq (ControlBoneParentOrg i b) other =
     (case other of ControlBoneParentOrg j b' \<Rightarrow> b = b' | _ \<Rightarrow> False)"
| "parent_eq (ControlBoneParentOffset i ow w n cl al ao mb) other =
     (case other of
        ControlBoneParentOffset i' ow' w' n' cl' al' ao' mb' \<Rightarrow>
          parent_eq w w' \<and> map_of cl = map_of cl' \<and> map_of al = map_of al'
      | _ \<Rightarrow> False)"

text \<open>
  \<open>generate_bones\<close>; \<open>make_bone\<close> and \<open>make_derived_name\<close> belong to the host and are parameters:
  \<open>make_bone nd nm ori\<close> is the name of the bone made for node \<open>nd\<close> under the name \<open>nm\<close> with the
  orientation \<open>ori\<close>, if one is given.
\<close>

definition generate_bones ::
  "(nat \<Rightarrow> string \<Rightarrow> quat option \<Rightarrow> string) \<Rightarrow> (string \<Rightarrow> string) \<Rightarrow> (nat \<Rightarrow> string)
   \<Rightarrow> parent \<Rightarrow> error + parent" where
  "generate_bones make_bone make_derived_name node_name p =
     (case p of
        ControlBoneParentOffset i ow w n cl al ao mb \<Rightarrow>
          (if cl \<noteq> [] \<or> al \<noteq> [] then
             (let mch_name = make_derived_name (node_name n)
              in if al \<noteq> [] then
                   (if \<forall>key \<in> set (map fst al). map_of ao key \<noteq> None then
                      Inr (ControlBoneParentOffset i ow w n cl al ao
                             (Some (map (\<lambda>key. make_bone n mch_name (map_of ao key)) (map fst al))))
                    else Inl KeyError)
                 else Inr (ControlBoneParentOffset i ow w n cl al ao
                             (Some [make_bone n mch_name None])))
           else Inr (ControlBoneParentOffset i ow w n cl al ao (Some [])))
      | _ \<Rightarrow> Inr p)"

fun output_bone :: "parent \<Rightarrow> error + string" where
  "output_bone (ControlBoneParentOrg i b) = Inr b"
| "output_bone (ControlBoneParentOffset i ow w n cl al ao mb) =
     (case mb of
        None \<Rightarrow> Inl AttributeError
      | Some bones \<Rightarrow> if bones \<noteq> [] then Inr (last bones) else output_bone w)"

text \<open>
  The end of \<open>build_parent_for_node\<close>: \<open>result\<close> is the parent that the rigs have just built, a
  new object; the cache of the master holds the parents built before. The first cached parent
  equal to the result is returned in its place; a result without an equal is appended to the
  cache and its name is recorded under its identity.
\<close>

fun cache_lookup :: "parent list \<Rightarrow> parent \<Rightarrow> parent option" where
  "cache_lookup [] result = None"
| "cache_lookup (previous # cache) result =
     (if parent_eq previous result then Some previous else cache_lookup cache result)"

definition build_parent_for_node ::
  "parent list \<times> (nat \<rightharpoonup> string) \<Rightarrow> parent \<Rightarrow> string
   \<Rightarrow> parent \<times> parent list \<times> (nat \<rightharpoonup> string)" where
  "build_parent_for_node c result node_name =
     (case c of (cache, names) \<Rightarrow>
        (case cache_lookup cache result of
           Some previous \<Rightarrow> (previous, cache, names)
         | None \<Rightarrow> (result, cache @ [result], names(obj_id result \<mapsto> node_name))))"

section \<open>Notions used in the proofs\<close>

text \<open>
  A node without the two attributes that \<open>merge_done\<close> writes. Two stores with the same cores
  differ in these attributes at most.
\<close>

definition core :: "node \<Rightarrow> node" where
  "core n = n\<lparr>merged_master := None, mirror_siblings := None\<rparr>"

text \<open>The point that linking gives to a master with the children \<open>cs\<close>, from the points in \<open>st\<close>.\<close>

definition centroid :: "store \<Rightarrow> nat \<Rightarrow> nat set \<Rightarrow> vec3" where
  "centroid st m cs =
     vec_div (vec_add (point (st ! m)) (vec_sum (\<lambda>c. point (st ! c)) cs)) (real (card cs + 1))"

text \<open>
  The buckets of a rig table hold main nodes of the rig they are filed under; the edges of a
  merge table lead from main nodes to nodes of another rig.
\<close>

definition bucket_ok :: "store \<Rightarrow> nat list \<Rightarrow> (nat \<times> nat list) list \<Rightarrow> bool" where
  "bucket_ok st main tab = (\<forall>(r, ns) \<in> set tab. \<forall>n \<in> set ns. rig (st ! n) = r \<and> n \<in> set main)"

definition edges_ok :: "store \<Rightarrow> nat list \<Rightarrow> merge_table \<Rightarrow> bool" where
  "edges_ok st main mt = (\<forall>n. \<forall>c \<in> mt n. c \<in> set main \<and> rig (st ! c) \<noteq> rig (st ! n))"

text \<open>
  A finished master: its point is the centroid of the original points of itself and of its
  children, and every child lies in the store, belongs to another rig, is merged into the
  master and has the master's point.
\<close>

definition good_master :: "store \<Rightarrow> store \<Rightarrow> nat \<Rightarrow> bool" where
  "good_master st0 st m =
     (m < length st \<and> point (st ! m) = centroid st0 m (set (merged (st ! m))) \<and>
      (\<forall>c \<in> set (merged (st ! m)).
         c < length st \<and> rig (st ! c) \<noteq> rig (st ! m) \<and> merged_into (st ! c) = Some m \<and>
         point (st ! c) = point (st ! m)))"

text \<open>The invariant of the reduction loop, relative to the store \<open>st0\<close> at its start.\<close>

definition reduce_inv ::
  "store \<Rightarrow> nat list \<Rightarrow> store \<Rightarrow> merge_table \<Rightarrow> nat set \<Rightarrow> nat list \<Rightarrow> bool" where
  "reduce_inv st0 main st mt pending sf =
     (length st = length st0 \<and> map rig st = map rig st0 \<and> pending \<subseteq> set main \<and>
      (\<forall>n \<in> set main. n < length st0) \<and>
      (\<forall>n. mt n \<subseteq> pending) \<and> (\<forall>n. \<forall>c \<in> mt n. rig (st0 ! c) \<noteq> rig (st0 ! n)) \<and>
      (\<forall>n \<in> pending. point (st ! n) = point (st0 ! n) \<and> merged (st ! n) = []) \<and>
      (\<forall>m \<in> set sf. m \<notin> pending \<and> set (merged (st ! m)) \<inter> pending = {} \<and> good_master st0 st m))"

text \<open>
  The rotation that \<open>get_rotation\<close> returns for a node: the one kept in the node, or else the
  one of its rig. A node without its rotation, for what \<open>get_rotation\<close> leaves unchanged.
\<close>

definition resolved_rotation :: "(nat \<Rightarrow> rig_obj) \<Rightarrow> store \<Rightarrow> nat \<Rightarrow> quat" where
  "resolved_rotation R st n =
     (case rotation (st ! n) of
        None \<Rightarrow> final_control_node_rotation (R (rig (st ! n)))
      | Some r \<Rightarrow> r)"

definition no_rotation :: "node \<Rightarrow> node" where
  "no_rotation n = n\<lparr>rotation := None\<rparr>"

text \<open>
  Two indexed points are near when their distance is at most \<open>epsilon\<close>; the component of an
  index is what a chain of such steps reaches from it.
\<close>

definition near :: "vec3 list \<Rightarrow> (nat \<times> nat) set" where
  "near tree =
     {(a, b). a < length tree \<and> b < length tree \<and>
              dist_sq (tree ! b) (tree ! a) \<le> epsilon * epsilon}"

definition component :: "vec3 list \<Rightarrow> nat \<Rightarrow> nat set" where
  "component tree i = (near tree)\<^sup>* `` {i}"

text \<open>
  The invariant of the outer loop of \<open>initialize\<close>: the nodes not yet processed still have the
  points that were put into the tree, the processed set is closed under nearness, and the
  groups built so far are disjoint components that make up the processed set.
\<close>

definition cluster_inv :: "vec3 list \<Rightarrow> store \<Rightarrow> nat set \<Rightarrow> merge_group list \<Rightarrow> bool" where
  "cluster_inv tree st processed grps =
     (length st = length tree \<and>
      (\<forall>j < length tree. j \<notin> processed \<longrightarrow> point (st ! j) = tree ! j) \<and>
      processed \<subseteq> {..<length tree} \<and>
      (\<forall>a \<in> processed. component tree a \<subseteq> processed) \<and>
      (\<Union>g \<in> set grps. set (group_nodes g)) = processed \<and>
      (\<forall>p < length grps. \<forall>q < length grps. p \<noteq> q \<longrightarrow>
         set (group_nodes (grps ! p)) \<inter> set (group_nodes (grps ! q)) = {}) \<and>
      (\<forall>g \<in> set grps. \<forall>a \<in> set (group_nodes g). set (group_nodes g) = component tree a))"

text \<open>
  The size of a master in the words of the specification, for comparison with what
  \<open>initialize\<close> computes: the mean of the sizes of those merged siblings that share the base
  name of the master (its mirror symmetry) and have the highest icon among these.
\<close>

definition spec_master_size :: "store \<Rightarrow> nat \<Rightarrow> real" where
  "spec_master_size st self =
     (case get_merged_siblings st self of
        Inl e \<Rightarrow> 0
      | Inr sibs \<Rightarrow>
          (let mirrors = [n \<leftarrow> sibs. fst (name_split (st ! n)) = fst (name_split (st ! self))];
               top = foldl max 0 (map (\<lambda>n. icon_value (icon (st ! n))) mirrors);
               sel = [n \<leftarrow> mirrors. icon_value (icon (st ! n)) = top]
           in sum_list (map (\<lambda>n. node_size (st ! n)) sel) / real (length sel)))"



section \<open>Example inputs\<close>

text \<open>
  The places of small indices in a set's table of eight slots, the size of the table of every
  set of the examples.
\<close>

definition ex_slot :: "nat set \<Rightarrow> nat \<Rightarrow> nat" where
  "ex_slot S i = i mod 8"

text \<open>Two chains of equal priority, and more rigs of the same kind.\<close>

definition ex_rigs :: "nat \<Rightarrow> rig_obj" where
  "ex_rigs r =
     \<lparr>base_bone = (if r = 0 then ''chain_a'' else if r = 1 then ''chain_b'' else ''chain_c''),
      chain_priority = 0, final_control_node_rotation = (1, 0, 0, 0)\<rparr>"

text \<open>Coincident end points of chain A, of tier \<open>TWEAK\<close>, and of chain B, of tier \<open>FREE\<close>.\<close>

definition ex_tweak :: node where
  "ex_tweak = new_node ControlBoneNode 0 ''a_end'' (0, 0, 1) (''a_end'', 0, 0) 1
                ControlNodeLayer.TWEAK ControlNodeIcon.TWEAK"

definition ex_free :: node where
  "ex_free = new_node ControlBoneNode 1 ''b_end'' (0, 0, 1) (''b_end'', 0, 0) 1
               ControlNodeLayer.FREE ControlNodeIcon.FREE"

text \<open>
  Three requests for a parent on top of the same bone: two with the same contribution,
  built as separate objects, and one with another weight.
\<close>

definition ex_parent_1 :: parent where
  "ex_parent_1 =
     add_copy_local_location (new_offset 1 0 (ControlBoneParentOrg 0 ''root'') 0)
       (BoneName ''target'') (Number 1) None Map.empty"

definition ex_parent_2 :: parent where
  "ex_parent_2 =
     add_copy_local_location (new_offset 3 0 (ControlBoneParentOrg 2 ''root'') 0)
       (BoneName ''target'') (Number 1) None Map.empty"

definition ex_parent_3 :: parent where
  "ex_parent_3 =
     add_copy_local_location (new_offset 5 0 (ControlBoneParentOrg 4 ''root'') 0)
       (BoneName ''target'') (Number (1 / 2)) None Map.empty"

text \<open>
  Two class hierarchies over \<open>MergeGroup\<close>: in the first, the classes 1, 2 and 3 derive from
  it directly; in the second, class 3 derives from both 1 and 2. Three nodes with the group
  classes 3, 1 and 2.
\<close>

definition ex_issubclass_tree :: "nat \<Rightarrow> nat \<Rightarrow> bool" where
  "ex_issubclass_tree a b = (a = b \<or> b = 0)"

definition ex_issubclass_diamond :: "nat \<Rightarrow> nat \<Rightarrow> bool" where
  "ex_issubclass_diamond a b = (a = b \<or> b = 0 \<or> (a = 3 \<and> (b = 1 \<or> b = 2)))"

definition ex_class_nodes :: store where
  "ex_class_nodes =
     [(new_node MainMergeNode 0 ''a'' (0, 0, 0) (''a'', 0, 0) 1 ControlNodeLayer.FREE ControlNodeIcon.TWEAK)
        \<lparr>group_class := 3\<rparr>,
      (new_node MainMergeNode 1 ''b'' (0, 0, 0) (''b'', 0, 0) 1 ControlNodeLayer.FREE ControlNodeIcon.TWEAK)
        \<lparr>group_class := 1\<rparr>,
      (new_node MainMergeNode 2 ''c'' (0, 0, 0) (''c'', 0, 0) 1 ControlNodeLayer.FREE ControlNodeIcon.TWEAK)
        \<lparr>group_class := 2\<rparr>]"

text \<open>
  A cluster of three control nodes of the same tier: two of rig 0 and one of rig 1.
\<close>

definition ex_shared_rig_nodes :: store where
  "ex_shared_rig_nodes =
     [new_node ControlBoneNode 0 ''a'' (0, 0, 0) (''a'', 0, 0) 1
        ControlNodeLayer.FREE ControlNodeIcon.FREE,
      new_node ControlBoneNode 0 ''b'' (0, 0, 3) (''b'', 0, 0) 1
        ControlNodeLayer.FREE ControlNodeIcon.FREE,
      new_node ControlBoneNode 1 ''c'' (0, 3, 0) (''c'', 0, 0) 2
        ControlNodeLayer.FREE ControlNodeIcon.FREE]"

text \<open>
  A merger with three registered nodes: the end points of two chains at \<open>(0, 0, 1)\<close>, one
  millionth apart, and a node of a third rig at \<open>(0, 0, 2)\<close>.
\<close>

definition ex_merger :: node_merger where
  "ex_merger =
     \<lparr>nodes =
        [new_node ControlBoneNode 0 ''a_end'' (0, 0, 1) (''a_end'', 0, 0) 1
           ControlNodeLayer.FREE ControlNodeIcon.FREE,
         new_node ControlBoneNode 1 ''b_end'' (0, 0, 1 + 1 / 1000000) (''b_end'', 0, 0) 1
           ControlNodeLayer.FREE ControlNodeIcon.FREE,
         new_node ControlBoneNode 2 ''c_end'' (0, 0, 2) (''c_end'', 0, 0) 1
           ControlNodeLayer.FREE ControlNodeIcon.FREE],
      final_nodes = [], groups = [], frozen = False\<rparr>"

text \<open>The store after the group of the first two nodes is built, and after both groups.\<close>

definition ex_merger_store1 :: store where
  "ex_merger_store1 =
     [(nodes ex_merger ! 0)\<lparr>point := (0, 0, 2000001 / 2000000), merged := [1],
                            merged_master := Some 0,
                            mirror_siblings := Some [((''a_end'', 0, 0), 0)]\<rparr>,
      (nodes ex_merger ! 1)\<lparr>point := (0, 0, 2000001 / 2000000), merged_into := Some 0,
                            merged_master := Some 0,
                            mirror_siblings := Some [((''b_end'', 0, 0), 1)]\<rparr>,
      nodes ex_merger ! 2]"

definition ex_merger_store2 :: store where
  "ex_merger_store2 =
     ex_merger_store1[2 := (nodes ex_merger ! 2)\<lparr>merged_master := Some 2,
                              mirror_siblings := Some [((''c_end'', 0, 0), 2)]\<rparr>]"

text \<open>
  Three rigs whose chains are rotated differently: by a quarter of a turn less or more about
  the same axis, as unit quaternions.
\<close>

definition ex_mirror_rigs :: "nat \<Rightarrow> rig_obj" where
  "ex_mirror_rigs r =
     \<lparr>base_bone = (if r = 0 then ''lip'' else if r = 1 then ''lip.L'' else ''lip.R''),
      chain_priority = 0,
      final_control_node_rotation =
        (if r = 0 then (1, 0, 0, 0) else if r = 1 then (3 / 5, 4 / 5, 0, 0)
         else (- 7 / 25, 24 / 25, 0, 0))\<rparr>"




text \<open>
  A mirrored pair of different icons, \<open>TWEAK\<close> on the left and \<open>CUSTOM\<close> on the right, with the
  sizes 1 and 2, merged with a node of another base name, of the icon \<open>CUSTOM\<close> and the size 5.
  The left node is the master.
\<close>

definition ex_tier_nodes :: store where
  "ex_tier_nodes =
     [new_node ControlBoneNode 0 ''lip.L'' (1, 0, 0) (''lip'', - 1, 0) 1
        ControlNodeLayer.FREE ControlNodeIcon.TWEAK,
      new_node ControlBoneNode 1 ''lip.R'' (1, 0, 0) (''lip'', 1, 0) 2
        ControlNodeLayer.FREE ControlNodeIcon.CUSTOM,
      new_node ControlBoneNode 2 ''nose'' (1, 0, 0) (''nose'', 0, 0) 5
        ControlNodeLayer.FREE ControlNodeIcon.CUSTOM]"

definition ex_tier_merged :: store where
  "ex_tier_merged =
     [(ex_tier_nodes ! 0)\<lparr>merged := [1, 2], merged_master := Some 0,
          mirror_siblings := Some [((''lip'', - 1, 0), 0), ((''lip'', 1, 0), 1)]\<rparr>,
      (ex_tier_nodes ! 1)\<lparr>merged_into := Some 0, merged_master := Some 0,
          mirror_siblings := Some [((''lip'', - 1, 0), 0), ((''lip'', 1, 0), 1)]\<rparr>,
      (ex_tier_nodes ! 2)\<lparr>merged_into := Some 0, merged_master := Some 0,
          mirror_siblings := Some [((''nose'', 0, 0), 2)]\<rparr>]"



section \<open>Auxiliary facts\<close>

lemma parent_eq_refl: "parent_eq p p"
  by (induction p) auto

lemma parent_eq_sym: "parent_eq p q \<Longrightarrow> parent_eq q p"
  by (induction p q rule: parent_eq.induct) (auto split: parent.splits)

lemma parent_eq_trans: "parent_eq p q \<Longrightarrow> parent_eq q r \<Longrightarrow> parent_eq p r"
  by (induction p q arbitrary: r rule: parent_eq.induct) (auto split: parent.splits)

lemma cache_lookup_Some: "cache_lookup cache r = Some p \<Longrightarrow> p \<in> set cache \<and> parent_eq p r"
  by (induction cache) (auto split: if_splits)

lemma cache_lookup_cong: "parent_eq r1 r2 \<Longrightarrow> cache_lookup cache r2 = cache_lookup cache r1"
  by (induction cache) (auto intro: parent_eq_trans parent_eq_sym)

lemma cache_lookup_append:
  "cache_lookup (xs @ ys) r =
     (case cache_lookup xs r of Some p \<Rightarrow> Some p | None \<Rightarrow> cache_lookup ys r)"
  by (induction xs) auto

lemma group_class_loop_Inr:
  assumes rf: "\<And>c. sub c c"
    and tr: "\<And>a b c. sub a b \<Longrightarrow> sub b c \<Longrightarrow> sub a c"
    and "group_class_loop sub R st g items = Inr g'"
  shows "sub g' g \<and> (\<forall>i \<in> set items. sub g' (group_class (st ! i)))"
  using assms(3)
proof (induction items arbitrary: g)
  case Nil
  then show ?case using rf by simp
next
  case (Cons item items)
  let ?c = "group_class (st ! item)"
  show ?case
  proof (cases "sub ?c g")
    case True
    with Cons.prems have "group_class_loop sub R st ?c items = Inr g'" by simp
    from Cons.IH[OF this]
    have 1: "sub g' ?c" and 2: "\<forall>i \<in> set items. sub g' (group_class (st ! i))"
      by simp_all
    from tr[OF 1 True] have "sub g' g" .
    with 1 2 show ?thesis by simp
  next
    case False
    with Cons.prems have g: "sub g ?c" and r: "group_class_loop sub R st g items = Inr g'"
      by (simp_all add: Let_def split: if_splits)
    from Cons.IH[OF r]
    have 1: "sub g' g" and 2: "\<forall>i \<in> set items. sub g' (group_class (st ! i))"
      by simp_all
    from tr[OF 1 g] have "sub g' ?c" .
    with 1 2 show ?thesis by simp
  qed
qed

lemma group_class_loop_Inl:
  assumes "group_class_loop sub R st g items = Inl e"
  shows "\<exists>g2 item. item \<in> set items \<and>
           e = MetarigError g2 (group_class (st ! item)) (name (st ! item))
                 (base_bone (R (rig (st ! item)))) \<and>
           (g2 = g \<or> g2 \<in> (\<lambda>m. group_class (st ! m)) ` set items) \<and>
           \<not> sub g2 (group_class (st ! item)) \<and> \<not> sub (group_class (st ! item)) g2"
  using assms
proof (induction items arbitrary: g)
  case Nil
  then show ?case by simp
next
  case (Cons item items)
  let ?c = "group_class (st ! item)"
  let ?P = "\<lambda>g its g2 it. it \<in> set its \<and>
           e = MetarigError g2 (group_class (st ! it)) (name (st ! it))
                 (base_bone (R (rig (st ! it)))) \<and>
           (g2 = g \<or> g2 \<in> (\<lambda>m. group_class (st ! m)) ` set its) \<and>
           \<not> sub g2 (group_class (st ! it)) \<and> \<not> sub (group_class (st ! it)) g2"
  show ?case
  proof (cases "sub ?c g")
    case True
    with Cons.prems have "group_class_loop sub R st ?c items = Inl e" by simp
    from Cons.IH[OF this] obtain g2 it where "?P ?c items g2 it" by blast
    then have "?P g (item # items) g2 it" by auto
    then show ?thesis by blast
  next
    case False
    show ?thesis
    proof (cases "sub g ?c")
      case True
      with False Cons.prems have "group_class_loop sub R st g items = Inl e" by simp
      from Cons.IH[OF this] obtain g2 it where "?P g items g2 it" by blast
      then have "?P g (item # items) g2 it" by auto
      then show ?thesis by blast
    next
      case F2: False
      with False Cons.prems
      have "e = MetarigError g ?c (name (st ! item)) (base_bone (R (rig (st ! item))))"
        by simp
      with False F2 have "?P g (item # items) g item" by simp
      then show ?thesis by blast
    qed
  qed
qed

lemma map_update_same:
  assumes "f y = f (xs ! k)"
  shows "map f (xs[k := y]) = map f xs"
proof (cases "k < length xs")
  case True
  with assms show ?thesis
    by (intro nth_equalityI) (auto simp: nth_list_update)
next
  case False
  then have "xs[k := y] = xs" by (intro list_update_beyond) simp
  then show ?thesis by simp
qed

lemma core_fields:
  "point (core n) = point n" "rig (core n) = rig n" "merged (core n) = merged n"
  "merged_into (core n) = merged_into n" "node_class (core n) = node_class n"
  "name_split (core n) = name_split n" "icon (core n) = icon n" "node_size (core n) = node_size n"
  "rotation (core n) = rotation n"
  by (simp_all add: core_def)

lemma map_core_nth:
  assumes "map core a = map core b" and "j < length b"
  shows "core (a ! j) = core (b ! j)"
proof -
  from assms(1) have "length a = length b" by (metis length_map)
  with assms(2) have "map core a ! j = core (a ! j)" "map core b ! j = core (b ! j)" by simp_all
  with assms(1) show ?thesis by simp
qed

lemma map_core_fields:
  assumes "map core a = map core b" and "j < length b"
  shows "point (a ! j) = point (b ! j)" "rig (a ! j) = rig (b ! j)"
    "merged (a ! j) = merged (b ! j)" "merged_into (a ! j) = merged_into (b ! j)"
    "name_split (a ! j) = name_split (b ! j)" "icon (a ! j) = icon (b ! j)"
    "node_size (a ! j) = node_size (b ! j)" "rotation (a ! j) = rotation (b ! j)"
    "node_class (a ! j) = node_class (b ! j)"
  using map_core_nth[OF assms] core_fields by metis+

lemma find_mirror_siblings_core:
  "find_mirror_siblings st self = Inr st' \<Longrightarrow> map core st' = map core st"
  by (auto simp: find_mirror_siblings_def Let_def core_def
           split: sum.splits option.splits if_splits intro!: map_update_same)

lemma fold_err_invariant:
  assumes "fold_err f xs s = Inr s'" and "P s"
    and "\<And>x a b. x \<in> set xs \<Longrightarrow> f x a = Inr b \<Longrightarrow> P a \<Longrightarrow> P b"
  shows "P s'"
  using assms
proof (induction xs arbitrary: s)
  case Nil
  then show ?case by simp
next
  case (Cons x xs)
  from Cons.prems(1) obtain s1 where 1: "f x s = Inr s1" and 2: "fold_err f xs s1 = Inr s'"
    by (auto split: sum.splits)
  from Cons.prems(3)[OF _ 1 Cons.prems(2)] have "P s1" by simp
  show ?case
  proof (rule Cons.IH[OF 2 \<open>P s1\<close>])
    fix y a b
    assume "y \<in> set xs" "f y a = Inr b" "P a"
    with Cons.prems(3)[of y a b] show "P b" by simp
  qed
qed

lemma merge_done_core: "merge_done k st self = Inr st' \<Longrightarrow> map core st' = map core st"
proof (induction k arbitrary: st self st')
  case 0
  then show ?case by simp
next
  case (Suc k)
  let ?st1 = "st[self := (st ! self)\<lparr>merged_master :=
                   Some (case merged_into (st ! self) of None \<Rightarrow> self | Some m \<Rightarrow> m)\<rparr>]"
  have c1: "map core ?st1 = map core st"
    by (rule map_update_same) (simp add: core_def)
  from Suc.prems obtain st2 where
    f: "fold_err (\<lambda>child s. merge_done k s child) (merged (?st1 ! self)) ?st1 = Inr st2"
    and r: "(if node_class (st2 ! self) = ControlBoneNode then find_mirror_siblings st2 self
             else Inr st2) = Inr st'"
    by (auto simp: Let_def split: sum.splits)
  have c2: "map core st2 = map core st"
    using f c1
  proof (rule fold_err_invariant)
    fix x a b
    assume "merge_done k a x = Inr b" and "map core a = map core st"
    with Suc.IH[of a x b] show "map core b = map core st" by simp
  qed
  from r c2 show ?case
    by (auto split: if_splits dest: find_mirror_siblings_core)
qed

lemma link_child_eq:
  assumes "child \<noteq> best" and "child < length st" and "best < length st"
  shows "link_child best st child =
           st[child := (st ! child)\<lparr>point := point (st ! best), merged_into := Some best\<rparr>,
              best := (st ! best)\<lparr>merged := merged (st ! best) @ [child]\<rparr>]"
  using assms
  by (intro nth_equalityI)
     (auto simp: link_child_def merge_from_def merge_into_def Let_def nth_list_update)

lemma link_fold:
  assumes "best < length st" and "best \<notin> set cs" and "\<forall>c \<in> set cs. c < length st"
  shows "length (foldl (link_child best) st cs) = length st \<and>
         foldl (link_child best) st cs ! best = (st ! best)\<lparr>merged := merged (st ! best) @ cs\<rparr> \<and>
         (\<forall>j < length st. j \<noteq> best \<longrightarrow>
            foldl (link_child best) st cs ! j =
              (if j \<in> set cs
               then (st ! j)\<lparr>point := point (st ! best), merged_into := Some best\<rparr>
               else st ! j))"
  using assms
proof (induction cs arbitrary: st)
  case Nil
  then show ?case by simp
next
  case (Cons c cs)
  let ?st' = "link_child best st c"
  from Cons.prems have c: "c \<noteq> best" "c < length st" by auto
  note eq = link_child_eq[OF c Cons.prems(1)]
  have len: "length ?st' = length st" by (simp add: eq)
  have b': "?st' ! best = (st ! best)\<lparr>merged := merged (st ! best) @ [c]\<rparr>"
    using Cons.prems(1) by (simp add: eq)
  have o': "\<And>j. j < length st \<Longrightarrow> j \<noteq> best \<Longrightarrow>
              ?st' ! j = (if j = c then (st ! c)\<lparr>point := point (st ! best), merged_into := Some best\<rparr>
                          else st ! j)"
    using c by (simp add: eq nth_list_update)
  have ih: "length (foldl (link_child best) ?st' cs) = length ?st' \<and>
         foldl (link_child best) ?st' cs ! best = (?st' ! best)\<lparr>merged := merged (?st' ! best) @ cs\<rparr> \<and>
         (\<forall>j < length ?st'. j \<noteq> best \<longrightarrow>
            foldl (link_child best) ?st' cs ! j =
              (if j \<in> set cs
               then (?st' ! j)\<lparr>point := point (?st' ! best), merged_into := Some best\<rparr>
               else ?st' ! j))"
    using Cons.prems by (intro Cons.IH) (simp_all add: len)
  show ?case
  proof (intro conjI allI impI)
    show "length (foldl (link_child best) st (c # cs)) = length st"
      using ih len by simp
    show "foldl (link_child best) st (c # cs) ! best
            = (st ! best)\<lparr>merged := merged (st ! best) @ c # cs\<rparr>"
      using ih b' by simp
  next
    fix j assume j: "j < length st" "j \<noteq> best"
    with ih len have "foldl (link_child best) ?st' cs ! j =
              (if j \<in> set cs
               then (?st' ! j)\<lparr>point := point (?st' ! best), merged_into := Some best\<rparr>
               else ?st' ! j)" by simp
    with o'[OF j] b' show "foldl (link_child best) st (c # cs) ! j =
              (if j \<in> set (c # cs)
               then (st ! j)\<lparr>point := point (st ! best), merged_into := Some best\<rparr>
               else st ! j)"
      by auto
  qed
qed

lemma link_children_props:
  assumes "best < length st" and "best \<notin> child_set" and "\<forall>n \<in> set main_nodes. n < length st"
  shows "length (link_children main_nodes st best child_set) = length st"
    and "link_children main_nodes st best child_set ! best =
           (st ! best)\<lparr>point := centroid st best child_set,
                        merged := merged (st ! best) @ [n \<leftarrow> main_nodes. n \<in> child_set]\<rparr>"
    and "\<And>j. j < length st \<Longrightarrow> j \<noteq> best \<Longrightarrow>
           link_children main_nodes st best child_set ! j =
             (if j \<in> set main_nodes \<and> j \<in> child_set
              then (st ! j)\<lparr>point := centroid st best child_set, merged_into := Some best\<rparr>
              else st ! j)"
proof -
  let ?st1 = "st[best := (st ! best)\<lparr>point := centroid st best child_set\<rparr>]"
  let ?cs = "[n \<leftarrow> main_nodes. n \<in> child_set]"
  have eq: "link_children main_nodes st best child_set = foldl (link_child best) ?st1 ?cs"
    by (simp add: link_children_def centroid_def Let_def)
  have "length (foldl (link_child best) ?st1 ?cs) = length ?st1 \<and>
         foldl (link_child best) ?st1 ?cs ! best = (?st1 ! best)\<lparr>merged := merged (?st1 ! best) @ ?cs\<rparr> \<and>
         (\<forall>j < length ?st1. j \<noteq> best \<longrightarrow>
            foldl (link_child best) ?st1 ?cs ! j =
              (if j \<in> set ?cs
               then (?st1 ! j)\<lparr>point := point (?st1 ! best), merged_into := Some best\<rparr>
               else ?st1 ! j))"
    using assms by (intro link_fold) auto
  with assms(1) show "length (link_children main_nodes st best child_set) = length st"
    and "link_children main_nodes st best child_set ! best =
           (st ! best)\<lparr>point := centroid st best child_set,
                        merged := merged (st ! best) @ [n \<leftarrow> main_nodes. n \<in> child_set]\<rparr>"
    and "\<And>j. j < length st \<Longrightarrow> j \<noteq> best \<Longrightarrow>
           link_children main_nodes st best child_set ! j =
             (if j \<in> set main_nodes \<and> j \<in> child_set
              then (st ! j)\<lparr>point := centroid st best child_set, merged_into := Some best\<rparr>
              else st ! j)"
    by (simp_all add: eq)
qed

lemma py_max_fold:
  fixes key :: "'a \<Rightarrow> 'k::linorder"
  shows "foldl (\<lambda>b y. if key b < key y then y else b) z zs \<in> set (z # zs) \<and>
         (\<forall>x \<in> set (z # zs). key x \<le> key (foldl (\<lambda>b y. if key b < key y then y else b) z zs))"
proof (induction zs arbitrary: z)
  case Nil
  show ?case by simp
next
  case (Cons y ys)
  let ?z' = "if key z < key y then y else z"
  from Cons.IH[of ?z'] show ?case by (auto split: if_splits)
qed

lemma py_max_mem: "py_max key xs = Inr b \<Longrightarrow> b \<in> set xs"
  using py_max_fold[of key] by (cases xs) auto


lemma reduce_loop_rule:
  assumes "reduce_loop main st mt pending fin sf = Inr (st', fin', sf')"
    and "I st mt pending fin sf"
    and step: "\<And>st mt pending fin sf best st2.
      I st mt pending fin sf \<Longrightarrow> pending \<noteq> {} \<Longrightarrow>
      py_max (\<lambda>n. card (mt n)) [n \<leftarrow> main. n \<in> pending] = Inr best \<Longrightarrow>
      merge_done (Suc (length (link_children main st best (mt best))))
        (link_children main st best (mt best)) best = Inr st2 \<Longrightarrow>
      I st2 (\<lambda>n. mt n \<inter> (pending - {best} - mt best)) (pending - {best} - mt best)
        (fin @ [best]) (sf @ [best])"
  shows "\<exists>mt'. I st' mt' {} fin' sf'"
  using assms
proof (induction main st mt pending fin sf rule: reduce_loop.induct)
  case (1 main st mt pending fin sf)
  note rs = reduce_loop.simps[of main st mt pending fin sf]
  show ?case
  proof (cases "pending = {}")
    case True
    then have "reduce_loop main st mt pending fin sf = Inr (st, fin, sf)"
      by (subst rs) simp
    with "1.prems"(1,2) True show ?thesis by auto
  next
    case False
    from "1.prems"(1) False obtain best where
      pm: "py_max (\<lambda>n. card (mt n)) [n \<leftarrow> main. n \<in> pending] = Inr best"
      by (auto simp: rs split: sum.splits)
    let ?st1 = "link_children main st best (mt best)"
    from "1.prems"(1) False pm obtain st2 where
      md: "merge_done (Suc (length ?st1)) ?st1 best = Inr st2"
      by (auto simp: rs Let_def split: sum.splits simp del: merge_done.simps)
    let ?p = "pending - {best} - mt best"
    from "1.prems"(1) False pm md
    have rec: "reduce_loop main st2 (\<lambda>n. mt n \<inter> ?p) ?p (fin @ [best]) (sf @ [best])
                 = Inr (st', fin', sf')"
      by (simp add: rs Let_def del: merge_done.simps)
    have inv: "I st2 (\<lambda>n. mt n \<inter> ?p) ?p (fin @ [best]) (sf @ [best])"
      by (rule "1.prems"(3)[OF "1.prems"(2) False pm md])
    show ?thesis
      by (rule "1.IH"[OF False pm refl refl md refl rec inv]) (rule "1.prems"(3), assumption+)
  qed
qed

lemma rig_table_append_ok:
  assumes "bucket_ok st main tab" and "rig (st ! n) = r" and "n \<in> set main"
  shows "bucket_ok st main (rig_table_append tab r n)"
  using assms by (induction tab r n rule: rig_table_append.induct) (auto simp: bucket_ok_def)

lemma make_rig_table_ok_aux:
  assumes "bucket_ok st main tab" and "set ns \<subseteq> set main"
  shows "bucket_ok st main (foldl (\<lambda>tab n. rig_table_append tab (rig (st ! n)) n) tab ns)"
  using assms by (induction ns arbitrary: tab) (auto intro: rig_table_append_ok)

lemma make_rig_table_ok: "bucket_ok st main (make_rig_table st main)"
  unfolding make_rig_table_def
  by (rule make_rig_table_ok_aux) (simp_all add: bucket_ok_def)

lemma merge_targets_ok:
  assumes "merge_targets R st node tab mt = Inr mt'"
    and "bucket_ok st main tab" and "edges_ok st main mt" and "node \<in> set main"
  shows "edges_ok st main mt'"
  using assms
proof (induction R st node tab mt rule: merge_targets.induct)
  case (1 R st node mt)
  then show ?case by simp
next
  case (2 R st node r tgt_nodes tab mt)
  from "2.prems"(2) have tab: "bucket_ok st main tab"
    and bucket: "\<forall>n \<in> set tgt_nodes. rig (st ! n) = r \<and> n \<in> set main"
    by (auto simp: bucket_ok_def)
  show ?case
  proof (cases "r \<noteq> rig (st ! node)")
    case True
    with "2.prems"(1) obtain tgt where
      pm: "py_max (\<lambda>n. get_merge_priority (st ! node) (st ! n))
             [n \<leftarrow> tgt_nodes. can_merge_into R (st ! node) (st ! n)] = Inr tgt"
      and rec: "merge_targets R st node tab (mt(tgt := insert node (mt tgt))) = Inr mt'"
      by (auto split: sum.splits)
    from py_max_mem[OF pm] bucket have "rig (st ! tgt) = r" by auto
    with True "2.prems"(3,4) have "edges_ok st main (mt(tgt := insert node (mt tgt)))"
      by (auto simp: edges_ok_def)
    from "2.IH"(1)[OF True pm rec tab this "2.prems"(4)] show ?thesis .
  next
    case False
    with "2.prems"(1) have rec: "merge_targets R st node tab mt = Inr mt'" by simp
    from "2.IH"(2)[OF _ rec tab "2.prems"(3,4)] False show ?thesis by simp
  qed
qed

lemma build_merge_table_ok:
  assumes "build_merge_table R st tab ns mt = Inr mt'"
    and "bucket_ok st main tab" and "edges_ok st main mt" and "set ns \<subseteq> set main"
  shows "edges_ok st main mt'"
  using assms
proof (induction ns arbitrary: mt)
  case Nil
  then show ?case by simp
next
  case (Cons n ns)
  from Cons.prems(1) obtain mt1 where 1: "merge_targets R st n tab mt = Inr mt1"
    and 2: "build_merge_table R st tab ns mt1 = Inr mt'"
    by (auto split: sum.splits)
  from merge_targets_ok[OF 1 Cons.prems(2,3)] Cons.prems(4) have "edges_ok st main mt1" by simp
  from Cons.IH[OF 2 Cons.prems(2) this] Cons.prems(4) show ?case by simp
qed

lemma centroid_cong:
  assumes "point (a ! m) = point (b ! m)" and "\<forall>c \<in> cs. point (a ! c) = point (b ! c)"
  shows "centroid a m cs = centroid b m cs"
proof -
  have "vec_sum (\<lambda>c. point (a ! c)) cs = vec_sum (\<lambda>c. point (b ! c)) cs"
    unfolding vec_sum_def using assms(2) by (auto intro!: sum.cong)
  with assms(1) show ?thesis by (simp add: centroid_def)
qed

lemma map_rig_core: "map core a = map core b \<Longrightarrow> map rig a = map rig b"
proof -
  assume "map core a = map core b"
  then have "map (rig \<circ> core) a = map (rig \<circ> core) b"
    by (metis map_map)
  moreover have "rig \<circ> core = rig" by (auto simp: core_def)
  ultimately show ?thesis by simp
qed

lemma reduce_inv_step:
  assumes inv: "reduce_inv st0 main st mt pending sf"
    and ne: "pending \<noteq> {}"
    and pm: "py_max (\<lambda>n. card (mt n)) [n \<leftarrow> main. n \<in> pending] = Inr best"
    and md: "merge_done (Suc (length (link_children main st best (mt best))))
               (link_children main st best (mt best)) best = Inr st2"
  shows "reduce_inv st0 main st2 (\<lambda>n. mt n \<inter> (pending - {best} - mt best))
           (pending - {best} - mt best) (sf @ [best])"
proof -
  let ?cs = "mt best"
  let ?st1 = "link_children main st best ?cs"
  let ?p = "pending - {best} - ?cs"
  from inv have len: "length st = length st0" and rg: "map rig st = map rig st0"
    and psub: "pending \<subseteq> set main" and mlen: "\<forall>n \<in> set main. n < length st0"
    and mtsub: "\<forall>n. mt n \<subseteq> pending"
    and edges: "\<forall>n. \<forall>c \<in> mt n. rig (st0 ! c) \<noteq> rig (st0 ! n)"
    and pend: "\<forall>n \<in> pending. point (st ! n) = point (st0 ! n) \<and> merged (st ! n) = []"
    and old: "\<forall>m \<in> set sf. m \<notin> pending \<and> set (merged (st ! m)) \<inter> pending = {} \<and> good_master st0 st m"
    by (simp_all add: reduce_inv_def)
  from py_max_mem[OF pm] have bm: "best \<in> set main" and bp: "best \<in> pending" by auto
  from bm mlen len have bl: "best < length st" by simp
  from edges have bnc: "best \<notin> ?cs" by auto
  from mtsub psub have csmain: "?cs \<subseteq> set main" and cspend: "?cs \<subseteq> pending" by auto
  have mlen': "\<forall>n \<in> set main. n < length st" using mlen len by simp
  note lc = link_children_props[OF bl bnc mlen']
  have setcs: "set [n \<leftarrow> main. n \<in> ?cs] = ?cs" using csmain by auto
  have cen: "centroid st best ?cs = centroid st0 best ?cs"
    using pend bp cspend by (intro centroid_cong) auto
  have mc: "map core st2 = map core ?st1" by (rule merge_done_core[OF md])
  have len2: "length st2 = length st0" using mc lc(1) len by (metis length_map)
  have l1: "length ?st1 = length st0" using lc(1) len by simp
  have f2: "\<And>j. j < length st0 \<Longrightarrow> point (st2 ! j) = point (?st1 ! j) \<and>
              merged (st2 ! j) = merged (?st1 ! j) \<and> merged_into (st2 ! j) = merged_into (?st1 ! j)
              \<and> rig (st2 ! j) = rig (?st1 ! j)"
    using map_core_fields[OF mc] l1 by simp
  have best2: "point (st2 ! best) = centroid st0 best ?cs" "merged (st2 ! best) = [n \<leftarrow> main. n \<in> ?cs]"
    using f2[of best] bl len lc(2) cen pend bp by simp_all
  have child2: "\<And>c. c \<in> ?cs \<Longrightarrow> point (st2 ! c) = centroid st0 best ?cs \<and>
                  merged_into (st2 ! c) = Some best \<and> c < length st0"
  proof -
    fix c assume c: "c \<in> ?cs"
    with csmain mlen have cl: "c < length st0" by auto
    from c bnc have "c \<noteq> best" by auto
    with lc(3)[of c] cl len c csmain cen
    have "?st1 ! c = (st ! c)\<lparr>point := centroid st0 best ?cs, merged_into := Some best\<rparr>"
      by auto
    with f2[OF cl] cl show "point (st2 ! c) = centroid st0 best ?cs \<and>
                  merged_into (st2 ! c) = Some best \<and> c < length st0" by simp
  qed
  have other2: "\<And>j. j < length st0 \<Longrightarrow> j \<noteq> best \<Longrightarrow> j \<notin> ?cs \<Longrightarrow>
                  point (st2 ! j) = point (st ! j) \<and> merged (st2 ! j) = merged (st ! j) \<and>
                  merged_into (st2 ! j) = merged_into (st ! j)"
  proof -
    fix j assume j: "j < length st0" "j \<noteq> best" "j \<notin> ?cs"
    with lc(3)[of j] len have "?st1 ! j = st ! j" by simp
    with f2[OF j(1)] show "point (st2 ! j) = point (st ! j) \<and> merged (st2 ! j) = merged (st ! j) \<and>
                  merged_into (st2 ! j) = merged_into (st ! j)" by simp
  qed
  have rig1: "map rig ?st1 = map rig st"
  proof (intro nth_equalityI)
    show "length (map rig ?st1) = length (map rig st)" using lc(1) by simp
  next
    fix j assume "j < length (map rig ?st1)"
    then have jl: "j < length st" using lc(1) by simp
    show "map rig ?st1 ! j = map rig st ! j"
    proof (cases "j = best")
      case True
      with jl lc(1,2) show ?thesis by simp
    next
      case False
      with jl lc(1) lc(3)[OF jl False] show ?thesis by simp
    qed
  qed
  have rg2: "map rig st2 = map rig st0"
    using map_rig_core[OF mc] rig1 rg by simp
  have rigs: "\<And>j. j < length st0 \<Longrightarrow> rig (st2 ! j) = rig (st0 ! j)"
  proof -
    fix j assume j: "j < length st0"
    from rg2 have "map rig st2 ! j = map rig st0 ! j" by simp
    with j len2 show "rig (st2 ! j) = rig (st0 ! j)" by simp
  qed
  have rigs0: "\<And>j. j < length st0 \<Longrightarrow> rig (st ! j) = rig (st0 ! j)"
  proof -
    fix j assume j: "j < length st0"
    from rg have "map rig st ! j = map rig st0 ! j" by simp
    with j len show "rig (st ! j) = rig (st0 ! j)" by simp
  qed
  have g_best: "good_master st0 st2 best"
    unfolding good_master_def
  proof (intro conjI ballI)
    show "best < length st2" using bl len len2 by simp
    show "point (st2 ! best) = centroid st0 best (set (merged (st2 ! best)))"
      using best2 setcs by simp
  next
    fix c assume "c \<in> set (merged (st2 ! best))"
    then have c: "c \<in> ?cs" using best2 setcs by simp
    from child2[OF c] show "c < length st2" using len2 by simp
    from child2[OF c] bl len rigs edges c show "rig (st2 ! c) \<noteq> rig (st2 ! best)" by auto
    from child2[OF c] show "merged_into (st2 ! c) = Some best" by simp
    from child2[OF c] best2 show "point (st2 ! c) = point (st2 ! best)" by simp
  qed
  have g_old: "\<And>m. m \<in> set sf \<Longrightarrow> m \<notin> ?p \<and> set (merged (st2 ! m)) \<inter> ?p = {} \<and> good_master st0 st2 m"
  proof -
    fix m assume m: "m \<in> set sf"
    with old have mp: "m \<notin> pending" and dis: "set (merged (st ! m)) \<inter> pending = {}"
      and gm: "good_master st0 st m" by auto
    from gm have ml: "m < length st0" using len by (simp add: good_master_def)
    from mp bp cspend have mne: "m \<noteq> best" "m \<notin> ?cs" by auto
    note om = other2[OF ml mne]
    have ch: "\<And>c. c \<in> set (merged (st ! m)) \<Longrightarrow> c < length st0 \<and> c \<noteq> best \<and> c \<notin> ?cs"
      using gm dis bp cspend len by (auto simp: good_master_def)
    have "good_master st0 st2 m"
      unfolding good_master_def
    proof (intro conjI ballI)
      show "m < length st2" using ml len2 by simp
      show "point (st2 ! m) = centroid st0 m (set (merged (st2 ! m)))"
        using om gm by (simp add: good_master_def)
    next
      fix c assume "c \<in> set (merged (st2 ! m))"
      then have c: "c \<in> set (merged (st ! m))" using om by simp
      note cc = ch[OF c]
      note oc = other2[of c]
      from cc show "c < length st2" using len2 by simp
      from gm c have "rig (st ! c) \<noteq> rig (st ! m)" by (simp add: good_master_def)
      with cc ml rigs rigs0 show "rig (st2 ! c) \<noteq> rig (st2 ! m)" by simp
      from gm c have "merged_into (st ! c) = Some m" by (simp add: good_master_def)
      with oc cc show "merged_into (st2 ! c) = Some m" by simp
      from gm c have "point (st ! c) = point (st ! m)" by (simp add: good_master_def)
      with oc cc om show "point (st2 ! c) = point (st2 ! m)" by simp
    qed
    moreover have "m \<notin> ?p" using mp by simp
    moreover have "set (merged (st2 ! m)) \<inter> ?p = {}" using om dis by auto
    ultimately show "m \<notin> ?p \<and> set (merged (st2 ! m)) \<inter> ?p = {} \<and> good_master st0 st2 m"
      by simp
  qed
  have pend2: "\<forall>n \<in> ?p. point (st2 ! n) = point (st0 ! n) \<and> merged (st2 ! n) = []"
  proof
    fix n assume n: "n \<in> ?p"
    then have "n \<in> pending" "n \<noteq> best" "n \<notin> ?cs" by auto
    moreover from this psub mlen have "n < length st0" by auto
    ultimately show "point (st2 ! n) = point (st0 ! n) \<and> merged (st2 ! n) = []"
      using other2[of n] pend by simp
  qed
  have new: "best \<notin> ?p \<and> set (merged (st2 ! best)) \<inter> ?p = {} \<and> good_master st0 st2 best"
    using g_best best2 setcs by auto
  show ?thesis
    unfolding reduce_inv_def
  proof (intro conjI)
    show "length st2 = length st0" by (rule len2)
    show "map rig st2 = map rig st0" by (rule rg2)
    show "?p \<subseteq> set main" using psub by auto
    show "\<forall>n \<in> set main. n < length st0" by (rule mlen)
    show "\<forall>n. mt n \<inter> ?p \<subseteq> ?p" by simp
    show "\<forall>n. \<forall>c \<in> mt n \<inter> ?p. rig (st0 ! c) \<noteq> rig (st0 ! n)" using edges by simp
    show "\<forall>n \<in> ?p. point (st2 ! n) = point (st0 ! n) \<and> merged (st2 ! n) = []" by (rule pend2)
    show "\<forall>m \<in> set (sf @ [best]). m \<notin> ?p \<and> set (merged (st2 ! m)) \<inter> ?p = {} \<and> good_master st0 st2 m"
      using g_old new by auto
  qed
qed

lemma build_good:
  assumes b: "build R st grp fin = Inr (st', fin', sf)"
    and wf: "\<forall>n \<in> set grp. n < length st"
    and fresh: "\<forall>n \<in> set grp. merged (st ! n) = []"
  shows "(\<forall>m \<in> set sf. good_master st st' m) \<and> length st' = length st \<and> map rig st' = map rig st"
proof -
  let ?main = "[n \<leftarrow> grp. is_main (st ! n)]"
  let ?tab = "make_rig_table st ?main"
  from b obtain mt where
    bt: "build_merge_table R st ?tab ?main (\<lambda>n. {}) = Inr mt"
    by (auto simp: build_def Let_def split: sum.splits)
  with b obtain fin1 where
    rl: "reduce_loop ?main st mt (set ?main) fin [] = Inr (st', fin1, sf)"
    by (auto simp: build_def Let_def split: sum.splits prod.splits)
  have e0: "edges_ok st ?main (\<lambda>n. {})" by (simp add: edges_ok_def)
  have eo: "edges_ok st ?main mt"
    by (rule build_merge_table_ok[OF bt make_rig_table_ok e0]) simp
  have i0: "reduce_inv st ?main st mt (set ?main) []"
    unfolding reduce_inv_def using eo wf fresh by (auto simp: edges_ok_def)
  have "\<exists>mt'. reduce_inv st ?main st' mt' {} sf"
    by (rule reduce_loop_rule[where I = "\<lambda>s m p f sf. reduce_inv st ?main s m p sf", OF rl i0])
       (rule reduce_inv_step, assumption+)
  then show ?thesis by (auto simp: reduce_inv_def)
qed

lemma ex_shared_rig_wf:
  "\<forall>n \<in> set [0, 1, 2]. n < length ex_shared_rig_nodes"
  "\<forall>n \<in> set [0, 1, 2]. merged (ex_shared_rig_nodes ! n) = []"
  by (simp_all add: ex_shared_rig_nodes_def new_node_def)

lemma ex_shared_rig_build:
  "case build ex_rigs ex_shared_rig_nodes [0, 1, 2] [] of
     Inr (st', fin', sf) \<Rightarrow>
       sf = [2] \<and> fin' = [2] \<and> map merged st' = [ [], [], [0, 1] ] \<and> map rig st' = [0, 0, 1] \<and>
       map point st' = [(0, 1, 1), (0, 1, 1), (0, 1, 1)] \<and>
       map merged_into st' = [Some 2, Some 2, None]
   | Inl e \<Rightarrow> False"
  by (simp add: build_def make_rig_table_def ex_shared_rig_nodes_def new_node_def is_main_def
        can_merge_into_def ex_rigs_def get_merge_priority_def Let_def link_children_def
        link_child_def merge_from_def merge_into_def vec_sum_def vec_add_def vec_div_def
        find_mirror_siblings_def get_merged_siblings_def insert_Diff_if reduce_loop.simps)

lemma get_rotation_props:
  assumes "get_rotation R st n = (st', r)"
  shows "r = resolved_rotation R st n"
    and "resolved_rotation R st' m = resolved_rotation R st m"
    and "map no_rotation st' = map no_rotation st"
proof -
  show "r = resolved_rotation R st n"
    using assms by (auto simp: get_rotation_def resolved_rotation_def Let_def split: option.splits)
  show "map no_rotation st' = map no_rotation st"
    using assms
    by (auto simp: get_rotation_def Let_def no_rotation_def split: option.splits
             intro!: map_update_same)
  show "resolved_rotation R st' m = resolved_rotation R st m"
  proof (cases "rotation (st ! n)")
    case (Some q)
    with assms show ?thesis by (simp add: get_rotation_def)
  next
    case None
    let ?r = "final_control_node_rotation (R (rig (st ! n)))"
    from None assms have st': "st' = st[n := (st ! n)\<lparr>rotation := Some ?r\<rparr>]"
      by (auto simp: get_rotation_def Let_def)
    show ?thesis
    proof (cases "m = n \<and> n < length st")
      case True
      with None st' show ?thesis by (simp add: resolved_rotation_def)
    next
      case False
      then have "st' ! m = st ! m"
        unfolding st' by (cases "m = n") (simp_all add: list_update_beyond)
      then show ?thesis unfolding resolved_rotation_def by (simp only:)
    qed
  qed
qed

lemma sum_rotations_props:
  assumes "sum_rotations R st acc ns = (st', tot)"
  shows "tot = foldl quat_add acc (map (resolved_rotation R st) ns) \<and>
         map no_rotation st' = map no_rotation st \<and>
         (\<forall>m. resolved_rotation R st' m = resolved_rotation R st m)"
  using assms
proof (induction ns arbitrary: st acc)
  case Nil
  then show ?case by simp
next
  case (Cons n ns)
  obtain s1 r where g: "get_rotation R st n = (s1, r)" by (cases "get_rotation R st n")
  note gp = get_rotation_props[OF g]
  from Cons.prems g have rec: "sum_rotations R s1 (quat_add acc r) ns = (st', tot)" by simp
  have "map (resolved_rotation R s1) ns = map (resolved_rotation R st) ns"
    using gp(2) by simp
  with Cons.IH[OF rec] gp show ?case by simp
qed




lemma resolved_rotation_cong:
  assumes "rotation (a ! n) = rotation (b ! n)" and "rig (a ! n) = rig (b ! n)"
  shows "resolved_rotation R a n = resolved_rotation R b n"
  using assms by (simp add: resolved_rotation_def split: option.splits)

lemma initialize_size_rotation_Inr:
  assumes master: "is_master_node (st ! self)" and sl: "self < length st"
    and sibs: "get_merged_siblings st self = Inr sibs"
    and ms: "mirror_siblings (st ! self) = Some ms"
    and best: "py_max (\<lambda>n. icon_value (icon (st ! n))) sibs = Inr best"
    and bm: "mirror_siblings (st ! best) = Some bm" and ne: "bm \<noteq> []"
  shows "\<exists>st'. initialize_size_rotation R st self = Inr st' \<and> length st' = length st \<and>
           node_size (st' ! self) =
             sum_list (map (\<lambda>n. node_size (st ! n)) (map snd bm)) / real (length bm) \<and>
           rotation (st' ! self) =
             Some (normalized (foldl quat_add quat_zero (map (resolved_rotation R st) (map snd ms))))"
proof -
  let ?avg = "sum_list (map (\<lambda>n. node_size (st ! n)) (map snd bm)) / real (length bm)"
  let ?st1 = "st[self := (st ! self)\<lparr>node_size := ?avg\<rparr>]"
  obtain st2 tot where sr: "sum_rotations R ?st1 quat_zero (map snd ms) = (st2, tot)"
    by (cases "sum_rotations R ?st1 quat_zero (map snd ms)")
  note sp = sum_rotations_props[OF sr]
  have r1: "resolved_rotation R ?st1 = resolved_rotation R st"
  proof (rule ext)
    fix m
    show "resolved_rotation R ?st1 m = resolved_rotation R st m"
      by (rule resolved_rotation_cong) (cases "m = self"; simp add: sl)+
  qed
  from sp have "tot = foldl quat_add quat_zero (map (resolved_rotation R ?st1) (map snd ms))"
    by blast
  then have tot: "tot = foldl quat_add quat_zero (map (resolved_rotation R st) (map snd ms))"
    by (simp only: r1)
  from sp have nr: "map no_rotation st2 = map no_rotation ?st1" by simp
  then have l2: "length st2 = length st" by (metis length_map length_list_update)
  from nr have "map no_rotation st2 ! self = map no_rotation ?st1 ! self" by simp
  with l2 sl have "no_rotation (st2 ! self) = no_rotation (?st1 ! self)" by simp
  then have "node_size (no_rotation (st2 ! self)) = node_size (no_rotation (?st1 ! self))" by simp
  then have sz: "node_size (st2 ! self) = ?avg" using sl by (simp add: no_rotation_def)
  let ?st3 = "st2[self := (st2 ! self)\<lparr>rotation := Some (normalized tot)\<rparr>]"
  have "initialize_size_rotation R st self = Inr ?st3"
    using master sibs ms best bm ne sr by (simp add: initialize_size_rotation_def Let_def)
  moreover have "length ?st3 = length st" using l2 by simp
  moreover have "node_size (?st3 ! self) = ?avg" using sz l2 sl by simp
  moreover have "rotation (?st3 ! self) = Some (normalized tot)" using l2 sl by simp
  ultimately show ?thesis using tot by blast
qed


lemma dist_sq_sym: "dist_sq a b = dist_sq b a"
  by (cases a, cases b) (simp add: dist_sq_def algebra_simps)

lemma dist_sq_refl: "dist_sq a a = 0"
  by (cases a) (simp add: dist_sq_def)

lemma near_sym: "sym (near tree)"
  by (auto simp: sym_def near_def dist_sq_sym)

lemma find_range_near:
  "a < length tree \<Longrightarrow> set (find_range tree (tree ! a) epsilon) = near tree `` {a}"
  by (auto simp: find_range_def near_def)

lemma component_self: "i \<in> component tree i"
  by (simp add: component_def)

lemma component_sym: "b \<in> component tree a \<Longrightarrow> a \<in> component tree b"
  using sym_rtrancl[OF near_sym, of tree] by (auto simp: component_def sym_def)

lemma component_trans: "b \<in> component tree a \<Longrightarrow> c \<in> component tree b \<Longrightarrow> c \<in> component tree a"
  by (auto simp: component_def)

lemma component_eq: "b \<in> component tree a \<Longrightarrow> component tree b = component tree a"
  using component_sym component_trans by blast

lemma component_step: "b \<in> component tree a \<Longrightarrow> (b, c) \<in> near tree \<Longrightarrow> c \<in> component tree a"
  by (auto simp: component_def)

lemma component_bound: "i < length tree \<Longrightarrow> component tree i \<subseteq> {..<length tree}"
proof
  fix b assume i: "i < length tree" and "b \<in> component tree i"
  then have "(i, b) \<in> (near tree)\<^sup>*" by (simp add: component_def)
  then show "b \<in> {..<length tree}"
    using i by (induction rule: rtrancl_induct) (auto simp: near_def)
qed

lemma component_closed:
  assumes "i \<in> S" and "\<forall>a \<in> S. near tree `` {a} \<subseteq> S"
  shows "component tree i \<subseteq> S"
proof
  fix b assume "b \<in> component tree i"
  then have "(i, b) \<in> (near tree)\<^sup>*" by (simp add: component_def)
  then show "b \<in> S"
    using assms by (induction rule: rtrancl_induct) auto
qed

lemma closure_loop_component:
  assumes "i < length tree"
    and "\<forall>j \<in> component tree i. point (st ! j) = tree ! j"
    and "pending \<subseteq> merge_set" and "merge_set \<subseteq> component tree i" and "i \<in> merge_set"
    and "\<forall>a \<in> merge_set - pending. near tree `` {a} \<subseteq> merge_set"
  shows "closure_loop tree st pending merge_set = component tree i"
  using assms
proof (induction tree st pending merge_set rule: closure_loop.induct)
  case (1 tree st pending merge_set)
  note cs = closure_loop.simps[of tree st pending merge_set]
  show ?case
  proof (cases "pending = {}")
    case True
    with "1.prems" have "component tree i \<subseteq> merge_set"
      by (intro component_closed) auto
    with "1.prems"(4) have "merge_set = component tree i" by auto
    moreover from True have "closure_loop tree st pending merge_set = merge_set"
      by (subst cs) simp
    ultimately show ?thesis by simp
  next
    case False
    let ?added = "\<Union>j\<in>pending. set (find_range tree (point (st ! j)) epsilon)"
    have pc: "pending \<subseteq> component tree i" using "1.prems"(3,4) by auto
    have pl: "\<forall>j \<in> pending. j < length tree"
      using pc component_bound[OF "1.prems"(1)] by auto
    have added: "?added = (\<Union>j\<in>pending. near tree `` {j})"
    proof (rule SUP_cong[OF refl])
      fix j assume j: "j \<in> pending"
      with pc "1.prems"(2) have "point (st ! j) = tree ! j" by auto
      with find_range_near[of j tree] pl j
      show "set (find_range tree (point (st ! j)) epsilon) = near tree `` {j}" by simp
    qed
    have asub: "?added \<subseteq> component tree i"
      unfolding added using pc component_step by blast
    have rec: "closure_loop tree st pending merge_set
                 = closure_loop tree st (?added - merge_set) (merge_set \<union> ?added)"
      using False by (simp add: cs Let_def)
    have "closure_loop tree st (?added - merge_set) (merge_set \<union> ?added) = component tree i"
    proof (rule "1.IH"[OF False refl "1.prems"(1,2)])
      show "?added - merge_set \<subseteq> merge_set \<union> ?added" by auto
      show "merge_set \<union> ?added \<subseteq> component tree i" using asub "1.prems"(4) by auto
      show "i \<in> merge_set \<union> ?added" using "1.prems"(5) by auto
      show "\<forall>a \<in> merge_set \<union> ?added - (?added - merge_set). near tree `` {a} \<subseteq> merge_set \<union> ?added"
      proof
        fix a assume "a \<in> merge_set \<union> ?added - (?added - merge_set)"
        then have am: "a \<in> merge_set" by auto
        show "near tree `` {a} \<subseteq> merge_set \<union> ?added"
        proof (cases "a \<in> pending")
          case True
          then have "near tree `` {a} \<subseteq> ?added" unfolding added by blast
          then show ?thesis by auto
        next
          case False
          with am "1.prems"(6) show ?thesis by auto
        qed
      qed
    qed
    with rec show ?thesis by simp
  qed
qed

lemma link_child_frame:
  "length (link_child best st child) = length st"
  "j \<noteq> best \<Longrightarrow> j \<noteq> child \<Longrightarrow> link_child best st child ! j = st ! j"
  by (simp_all add: link_child_def merge_from_def merge_into_def Let_def)

lemma link_fold_frame:
  "length (foldl (link_child best) st cs) = length st \<and>
   (j \<noteq> best \<longrightarrow> j \<notin> set cs \<longrightarrow> foldl (link_child best) st cs ! j = st ! j)"
  by (induction cs arbitrary: st) (simp_all add: link_child_frame)

lemma link_children_frame:
  "length (link_children main st best cs) = length st"
  "j \<noteq> best \<Longrightarrow> j \<notin> set main \<Longrightarrow> link_children main st best cs ! j = st ! j"
proof -
  let ?st1 = "st[best := (st ! best)\<lparr>point := centroid st best cs\<rparr>]"
  have eq: "link_children main st best cs = foldl (link_child best) ?st1 [n \<leftarrow> main. n \<in> cs]"
    by (simp add: link_children_def centroid_def Let_def)
  show "length (link_children main st best cs) = length st"
    using link_fold_frame[of best ?st1 "[n \<leftarrow> main. n \<in> cs]" j] by (simp add: eq)
  assume "j \<noteq> best" "j \<notin> set main"
  then show "link_children main st best cs ! j = st ! j"
    using link_fold_frame[of best ?st1 "[n \<leftarrow> main. n \<in> cs]" j] by (simp add: eq)
qed

lemma build_frame:
  assumes b: "build R st grp fin = Inr (st', fin', sf)"
  shows "length st' = length st \<and> (\<forall>j < length st. j \<notin> set grp \<longrightarrow> point (st' ! j) = point (st ! j))"
proof -
  let ?main = "[n \<leftarrow> grp. is_main (st ! n)]"
  let ?tab = "make_rig_table st ?main"
  let ?I = "\<lambda>s (m::merge_table) (p::nat set) (f::nat list) (g::nat list).
              length s = length st \<and> (\<forall>j < length st. j \<notin> set ?main \<longrightarrow> point (s ! j) = point (st ! j))"
  from b obtain mt where
    bt: "build_merge_table R st ?tab ?main (\<lambda>n. {}) = Inr mt"
    by (auto simp: build_def Let_def split: sum.splits)
  with b obtain fin1 where
    rl: "reduce_loop ?main st mt (set ?main) fin [] = Inr (st', fin1, sf)"
    by (auto simp: build_def Let_def split: sum.splits prod.splits)
  have i0: "?I st mt (set ?main) fin []" by simp
  have "\<exists>mt'. ?I st' mt' {} fin1 sf"
  proof (rule reduce_loop_rule[where I = ?I, OF rl i0])
    fix s m p f g best s2
    assume inv: "?I s m p f g"
      and pm: "py_max (\<lambda>n. card (m n)) [n \<leftarrow> ?main. n \<in> p] = Inr best"
      and md: "merge_done (Suc (length (link_children ?main s best (m best))))
                 (link_children ?main s best (m best)) best = Inr s2"
    let ?s1 = "link_children ?main s best (m best)"
    from py_max_mem[OF pm] have bm: "best \<in> set ?main" by auto
    have mc: "map core s2 = map core ?s1" by (rule merge_done_core[OF md])
    have l1: "length ?s1 = length st" using inv by (simp add: link_children_frame)
    have l2: "length s2 = length st" using mc l1 by (metis length_map)
    have "\<forall>j < length st. j \<notin> set ?main \<longrightarrow> point (s2 ! j) = point (st ! j)"
    proof (intro allI impI)
      fix j assume j: "j < length st" "j \<notin> set ?main"
      with bm have "j \<noteq> best" by auto
      with j have "?s1 ! j = s ! j" by (intro link_children_frame)
      moreover from map_core_fields(1)[OF mc, of j] j l1 have "point (s2 ! j) = point (?s1 ! j)"
        by simp
      ultimately show "point (s2 ! j) = point (st ! j)" using inv j by simp
    qed
    with l2 show "?I s2 (\<lambda>n. m n \<inter> (p - {best} - m best)) (p - {best} - m best)
           (f @ [best]) (g @ [best])" by simp
  qed
  then have "length st' = length st"
    and *: "\<forall>j < length st. j \<notin> set ?main \<longrightarrow> point (st' ! j) = point (st ! j)" by auto
  moreover have "set ?main \<subseteq> set grp" by auto
  ultimately show ?thesis by blast
qed

lemma set_make_merge_list: "finite C \<Longrightarrow> set (make_merge_list slot st C) = C"
  by (simp add: make_merge_list_def)

lemma cluster_inv_step:
  assumes inv: "cluster_inv tree st processed grps"
    and i: "i < length tree" "i \<notin> processed"
    and ml: "set merge_list = component tree i"
    and b: "build R st merge_list fin = Inr (st2, fin2, sf)"
  shows "cluster_inv tree st2 (processed \<union> component tree i)
           (grps @ [\<lparr>group_cls = gcls, group_nodes = merge_list, group_final_nodes = sf\<rparr>])"
proof -
  let ?C = "component tree i"
  let ?g = "\<lparr>group_cls = gcls, group_nodes = merge_list, group_final_nodes = sf\<rparr>"
  from inv have len: "length st = length tree"
    and pts: "\<forall>j < length tree. j \<notin> processed \<longrightarrow> point (st ! j) = tree ! j"
    and psub: "processed \<subseteq> {..<length tree}"
    and closed: "\<forall>a \<in> processed. component tree a \<subseteq> processed"
    and un: "(\<Union>g \<in> set grps. set (group_nodes g)) = processed"
    and dis: "\<forall>p < length grps. \<forall>q < length grps. p \<noteq> q \<longrightarrow>
         set (group_nodes (grps ! p)) \<inter> set (group_nodes (grps ! q)) = {}"
    and comp: "\<forall>g \<in> set grps. \<forall>a \<in> set (group_nodes g). set (group_nodes g) = component tree a"
    by (simp_all add: cluster_inv_def)
  have cd: "?C \<inter> processed = {}"
  proof (rule ccontr)
    assume "?C \<inter> processed \<noteq> {}"
    then obtain b where b: "b \<in> ?C" "b \<in> processed" by auto
    from component_sym[OF b(1)] closed b(2) have "i \<in> processed" by auto
    with i(2) show False by simp
  qed
  from build_frame[OF b] have l2: "length st2 = length st"
    and fr: "\<forall>j < length st. j \<notin> set merge_list \<longrightarrow> point (st2 ! j) = point (st ! j)"
    by simp_all
  have old: "\<And>p. p < length grps \<Longrightarrow> set (group_nodes (grps ! p)) \<subseteq> processed"
    using un by (metis UN_upper nth_mem)
  show ?thesis
    unfolding cluster_inv_def
  proof (intro conjI)
    show "length st2 = length tree" using l2 len by simp
    show "\<forall>j < length tree. j \<notin> processed \<union> ?C \<longrightarrow> point (st2 ! j) = tree ! j"
      using fr pts ml len by auto
    show "processed \<union> ?C \<subseteq> {..<length tree}"
      using psub component_bound[OF i(1)] by auto
    show "\<forall>a \<in> processed \<union> ?C. component tree a \<subseteq> processed \<union> ?C"
      using closed component_eq[of _ tree i] by auto
    show "(\<Union>g \<in> set (grps @ [?g]). set (group_nodes g)) = processed \<union> ?C"
      using un ml by auto
    show "\<forall>g \<in> set (grps @ [?g]). \<forall>a \<in> set (group_nodes g). set (group_nodes g) = component tree a"
      using comp ml component_eq[of _ tree i] by auto
    show "\<forall>p < length (grps @ [?g]). \<forall>q < length (grps @ [?g]). p \<noteq> q \<longrightarrow>
         set (group_nodes ((grps @ [?g]) ! p)) \<inter> set (group_nodes ((grps @ [?g]) ! q)) = {}"
    proof (intro allI impI)
      fix p q assume pq: "p < length (grps @ [?g])" "q < length (grps @ [?g])" "p \<noteq> q"
      consider "p < length grps" "q < length grps" | "p < length grps" "q = length grps"
        | "p = length grps" "q < length grps"
        using pq by fastforce
      then show "set (group_nodes ((grps @ [?g]) ! p)) \<inter> set (group_nodes ((grps @ [?g]) ! q)) = {}"
      proof cases
        case 1
        with dis pq(3) show ?thesis by (simp add: nth_append)
      next
        case 2
        with old[of p] cd ml show ?thesis by (auto simp: nth_append)
      next
        case 3
        with old[of q] cd ml show ?thesis by (auto simp: nth_append)
      qed
    qed
  qed
qed

lemma initialize_loop_inv:
  assumes "initialize_loop slot sub R tree js st processed fin grps = Inr (st', processed', fin', grps')"
    and "cluster_inv tree st processed grps" and "\<forall>i \<in> set js. i < length tree"
  shows "cluster_inv tree st' processed' grps' \<and> processed \<union> set js \<subseteq> processed'"
  using assms
proof (induction js arbitrary: st processed fin grps)
  case Nil
  then show ?case by simp
next
  case (Cons i js)
  show ?case
  proof (cases "i \<in> processed")
    case True
    with Cons.prems(1)
    have "initialize_loop slot sub R tree js st processed fin grps = Inr (st', processed', fin', grps')"
      by simp
    from Cons.IH[OF this Cons.prems(2)] Cons.prems(3) True show ?thesis by auto
  next
    case False
    let ?C = "component tree i"
    from Cons.prems(3) have il: "i < length tree" by simp
    from Cons.prems(2) have len: "length st = length tree"
      and pts: "\<forall>j < length tree. j \<notin> processed \<longrightarrow> point (st ! j) = tree ! j"
      and closed: "\<forall>a \<in> processed. component tree a \<subseteq> processed"
      by (simp_all add: cluster_inv_def)
    have cd: "?C \<inter> processed = {}"
    proof (rule ccontr)
      assume "?C \<inter> processed \<noteq> {}"
      then obtain b where b: "b \<in> ?C" "b \<in> processed" by auto
      from component_sym[OF b(1)] closed b(2) have "i \<in> processed" by auto
      with False show False by simp
    qed
    have "\<forall>j \<in> ?C. point (st ! j) = tree ! j"
      using pts cd component_bound[OF il] by auto
    then have cl: "closure_loop tree st {i} {i} = ?C"
      by (intro closure_loop_component[OF il]) (auto simp: component_self)
    have fin: "finite ?C" using component_bound[OF il] by (rule finite_subset) simp
    let ?ml = "make_merge_list slot st ?C"
    have sml: "set ?ml = ?C" by (rule set_make_merge_list[OF fin])
    from Cons.prems(1) False cl cd obtain gcls st2 fin2 sf where
      b: "build R st ?ml fin = Inr (st2, fin2, sf)"
      and rec: "initialize_loop slot sub R tree js st2 (processed \<union> ?C) fin2
                  (grps @ [\<lparr>group_cls = gcls, group_nodes = ?ml, group_final_nodes = sf\<rparr>])
                = Inr (st', processed', fin', grps')"
      by (auto simp: Let_def split: sum.splits if_splits)
    have inv2: "cluster_inv tree st2 (processed \<union> ?C)
                  (grps @ [\<lparr>group_cls = gcls, group_nodes = ?ml, group_final_nodes = sf\<rparr>])"
      by (rule cluster_inv_step[OF Cons.prems(2) il False sml b])
    from Cons.IH[OF rec inv2] Cons.prems(3) component_self[of i tree] show ?thesis by auto
  qed
qed

lemma ex_merger_length: "length (nodes ex_merger) = 3"
  by (simp add: ex_merger_def)

lemma ex_merger_closure1:
  "closure_loop (map point (nodes ex_merger)) (nodes ex_merger) {0} {0} = {0, 1}"
  apply (subst closure_loop.simps)
  apply (simp add: ex_merger_def new_node_def find_range_def dist_sq_def epsilon_def Let_def upt_rec)
  apply (subst closure_loop.simps)
  apply (simp add: ex_merger_def new_node_def find_range_def dist_sq_def epsilon_def Let_def upt_rec)
  apply (subst closure_loop.simps)
  apply (auto simp add: ex_merger_def new_node_def find_range_def dist_sq_def epsilon_def Let_def upt_rec)
  done

lemma ex_merger_list1: "make_merge_list ex_slot (nodes ex_merger) {0, 1} = [0, 1]"
  by (simp add: make_merge_list_def ex_slot_def ex_merger_def new_node_def)

lemma ex_merger_class1:
  "find_group_class ex_issubclass_tree ex_rigs (nodes ex_merger) [0, 1] = Inr 0"
  by (simp add: find_group_class_def ex_merger_def new_node_def MergeGroup_def
        ex_issubclass_tree_def)

lemma ex_merger_build1:
  "build ex_rigs (nodes ex_merger) [0, 1] [] = Inr (ex_merger_store1, [0], [0])"
  by (simp add: build_def make_rig_table_def ex_merger_def ex_merger_store1_def new_node_def
        is_main_def can_merge_into_def ex_rigs_def get_merge_priority_def Let_def
        link_children_def link_child_def merge_from_def merge_into_def vec_sum_def vec_add_def
        vec_div_def find_mirror_siblings_def get_merged_siblings_def insert_Diff_if
        reduce_loop.simps)

lemma ex_merger_closure2:
  "closure_loop (map point (nodes ex_merger)) ex_merger_store1 {2} {2} = {2}"
  apply (subst closure_loop.simps)
  apply (simp add: ex_merger_def ex_merger_store1_def new_node_def find_range_def dist_sq_def
           epsilon_def Let_def upt_rec)
  apply (subst closure_loop.simps)
  apply (simp add: ex_merger_def ex_merger_store1_def new_node_def find_range_def dist_sq_def
           epsilon_def Let_def upt_rec)
  done

lemma ex_merger_list2: "make_merge_list ex_slot ex_merger_store1 {2} = [2]"
  by (simp add: make_merge_list_def)

lemma ex_merger_class2:
  "find_group_class ex_issubclass_tree ex_rigs ex_merger_store1 [2] = Inr 0"
  by (simp add: find_group_class_def ex_merger_def ex_merger_store1_def new_node_def
        MergeGroup_def)

lemma ex_merger_build2:
  "build ex_rigs ex_merger_store1 [2] [0] = Inr (ex_merger_store2, [0, 2], [2])"
  by (simp add: build_def make_rig_table_def ex_merger_def ex_merger_store1_def
        ex_merger_store2_def new_node_def
        is_main_def can_merge_into_def ex_rigs_def get_merge_priority_def Let_def
        link_children_def link_child_def merge_from_def merge_into_def vec_sum_def vec_add_def
        vec_div_def find_mirror_siblings_def get_merged_siblings_def insert_Diff_if
        reduce_loop.simps)

lemma ex_merger_initialize:
  "initialize ex_slot ex_issubclass_tree ex_rigs ex_merger =
     Inr \<lparr>nodes = ex_merger_store2, final_nodes = [0, 2],
          groups = [\<lparr>group_cls = 0, group_nodes = [0, 1], group_final_nodes = [0]\<rparr>,
                    \<lparr>group_cls = 0, group_nodes = [2], group_final_nodes = [2]\<rparr>],
          frozen = True\<rparr>"
proof -
  have u: "[0..<3] = [0, 1, 2::nat]" by (simp add: upt_rec)
  show ?thesis
    by (simp add: initialize_def ex_merger_length u ex_merger_closure1[unfolded One_nat_def]
          ex_merger_list1[unfolded One_nat_def] ex_merger_class1[unfolded One_nat_def]
          ex_merger_build1[unfolded One_nat_def] ex_merger_closure2 ex_merger_list2
          ex_merger_class2 ex_merger_build2 Let_def)
qed



lemma ex_tier_build:
  "build ex_mirror_rigs ex_tier_nodes [0, 1, 2] [] = Inr (ex_tier_merged, [0], [0])"
  by (simp add: build_def make_rig_table_def ex_tier_nodes_def ex_tier_merged_def
        new_node_def is_main_def
        can_merge_into_def ex_mirror_rigs_def get_merge_priority_def Let_def link_children_def
        link_child_def merge_from_def merge_into_def vec_sum_def vec_add_def vec_div_def
        find_mirror_siblings_def get_merged_siblings_def insert_Diff_if reduce_loop.simps)

lemma ex_tier_facts:
  "is_master_node (ex_tier_merged ! 0)" "0 < length ex_tier_merged"
  "get_merged_siblings ex_tier_merged 0 = Inr [0, 1, 2]"
  "mirror_siblings (ex_tier_merged ! 0) = Some [((''lip'', - 1, 0), 0), ((''lip'', 1, 0), 1)]"
  "py_max (\<lambda>n. icon_value (icon (ex_tier_merged ! n))) [0, 1, 2] = Inr 1"
  "mirror_siblings (ex_tier_merged ! 1) = Some [((''lip'', - 1, 0), 0), ((''lip'', 1, 0), 1)]"
  "[((''lip'', - 1, 0), 0), ((''lip'', 1, 0), 1::nat)] \<noteq> []"
  by (simp_all add: ex_tier_merged_def ex_tier_nodes_def new_node_def is_master_node_def
        get_merged_siblings_def)






lemma ex_tier_sizes:
  "node_size (ex_tier_merged ! 0) = 1" "node_size (ex_tier_merged ! 1) = 2"
  "node_size (ex_tier_merged ! 2) = 5"
  by (simp_all add: ex_tier_merged_def) (simp_all add: ex_tier_nodes_def new_node_def)


lemma ex_tier_fields:
  "fst (name_split (ex_tier_merged ! 0)) = ''lip''" "fst (name_split (ex_tier_merged ! 1)) = ''lip''"
  "fst (name_split (ex_tier_merged ! 2)) = ''nose''"
  "icon (ex_tier_merged ! 0) = ControlNodeIcon.TWEAK"
  "icon (ex_tier_merged ! 1) = ControlNodeIcon.CUSTOM"
  "icon (ex_tier_merged ! 2) = ControlNodeIcon.CUSTOM"
  by (simp_all add: ex_tier_merged_def) (simp_all add: ex_tier_nodes_def new_node_def)



section \<open>The claims\<close>

text \<open>
  C1. The claim: when a main node cannot merge into any node of the bucket of another rig,
  \<open>MergeGroup.build\<close> completes and the pair never merges. On the coincident end points of a
  \<open>TWEAK\<close> chain and a \<open>FREE\<close> chain of equal priority the \<open>TWEAK\<close> node has no allowed target in
  the bucket of the other rig, and \<open>build\<close> ends with the \<open>ValueError\<close> of \<open>max\<close> on an empty
  list, in either order of the two nodes.
\<close>

theorem build_empty_targets_ValueError:
  "build ex_rigs [ex_tweak, ex_free] [0, 1] [] = Inl ValueError \<and>
   build ex_rigs [ex_tweak, ex_free] [1, 0] [] = Inl ValueError"
  by (simp add: build_def make_rig_table_def ex_tweak_def ex_free_def new_node_def is_main_def
        can_merge_into_def ex_rigs_def)

text \<open>
  C2. The claim: of two coincident control nodes of equal chain priority, one \<open>TWEAK\<close> and one
  \<open>FREE\<close>, only the \<open>TWEAK\<close> node may merge into the \<open>FREE\<close> node. The code allows the opposite
  direction only, since \<open>FREE\<close> is the lowest layer and merges go up the layers.
\<close>

theorem can_merge_into_tweak_free_counterexample:
  "\<not> can_merge_into ex_rigs ex_tweak ex_free \<and> can_merge_into ex_rigs ex_free ex_tweak"
  by (simp add: can_merge_into_def ex_tweak_def ex_free_def new_node_def ex_rigs_def)

text \<open>
  C2, amended: for two control nodes of rigs with equal chain priority, one of tier \<open>TWEAK\<close>
  and one of tier \<open>FREE\<close>, \<open>can_merge_into\<close> permits the merge of the \<open>FREE\<close> node into the \<open>TWEAK\<close>
  node and never the reverse.
\<close>

theorem can_merge_into_free_tweak:
  assumes "node_class t = ControlBoneNode" and "node_class f = ControlBoneNode"
    and "layer t = ControlNodeLayer.TWEAK" and "layer f = ControlNodeLayer.FREE"
    and "chain_priority (R (rig t)) = chain_priority (R (rig f))"
  shows "can_merge_into R f t \<and> \<not> can_merge_into R t f"
  using assms by (simp add: can_merge_into_def)

theorem can_merge_into_free_tweak_witness:
  "node_class ex_tweak = ControlBoneNode \<and> node_class ex_free = ControlBoneNode \<and>
   layer ex_tweak = ControlNodeLayer.TWEAK \<and> layer ex_free = ControlNodeLayer.FREE \<and>
   chain_priority (ex_rigs (rig ex_tweak)) = chain_priority (ex_rigs (rig ex_free)) \<and>
   can_merge_into ex_rigs ex_free ex_tweak \<and> \<not> can_merge_into ex_rigs ex_tweak ex_free"
proof -
  have h: "node_class ex_tweak = ControlBoneNode" "node_class ex_free = ControlBoneNode"
    "layer ex_tweak = ControlNodeLayer.TWEAK" "layer ex_free = ControlNodeLayer.FREE"
    "chain_priority (ex_rigs (rig ex_tweak)) = chain_priority (ex_rigs (rig ex_free))"
    by (simp_all add: ex_tweak_def ex_free_def new_node_def ex_rigs_def)
  from can_merge_into_free_tweak[OF h] h show ?thesis by simp
qed

text \<open>
  C9. When the master is asked twice for a parent of the same shape (the two results are
  equal by \<open>__eq__\<close>: equal upstream parents and equal contributions, whatever the identity of
  the objects), the second request returns the very object that the first one returned and
  leaves the cache as it is. When the second result differs from the first, for instance in
  the weight of a contribution, the object returned is another one: the two are not even
  equal.
\<close>

theorem build_parent_for_node_dedup:
  assumes "build_parent_for_node c r1 nm1 = (o1, c1)"
    and "build_parent_for_node c1 r2 nm2 = (o2, c2)"
  shows "(parent_eq r1 r2 \<longrightarrow> o2 = o1 \<and> c2 = c1) \<and> (\<not> parent_eq r1 r2 \<longrightarrow> \<not> parent_eq o1 o2)"
proof (intro conjI impI)
  assume e: "parent_eq r1 r2"
  show "o2 = o1"
    using assms e cache_lookup_cong[OF e]
    by (auto simp: build_parent_for_node_def cache_lookup_append parent_eq_refl
             split: prod.splits option.splits if_splits)
  show "c2 = c1"
    using assms e cache_lookup_cong[OF e]
    by (auto simp: build_parent_for_node_def cache_lookup_append parent_eq_refl
             split: prod.splits option.splits if_splits)
next
  assume ne: "\<not> parent_eq r1 r2"
  have 1: "parent_eq o1 r1"
    using assms(1)
    by (auto simp: build_parent_for_node_def parent_eq_refl split: prod.splits option.splits
             dest: cache_lookup_Some)
  have 2: "parent_eq o2 r2"
    using assms(2)
    by (auto simp: build_parent_for_node_def parent_eq_refl split: prod.splits option.splits
             dest: cache_lookup_Some)
  show "\<not> parent_eq o1 o2"
    using 1 2 ne by (meson parent_eq_sym parent_eq_trans)
qed

theorem build_parent_for_node_dedup_witness:
  "parent_eq ex_parent_1 ex_parent_2 \<and> \<not> parent_eq ex_parent_1 ex_parent_3 \<and>
   build_parent_for_node ([], Map.empty) ex_parent_1 ''n1''
     = (ex_parent_1, ([ex_parent_1], [1 \<mapsto> ''n1''])) \<and>
   build_parent_for_node ([ex_parent_1], [1 \<mapsto> ''n1'']) ex_parent_2 ''n2''
     = (ex_parent_1, ([ex_parent_1], [1 \<mapsto> ''n1''])) \<and>
   \<not> parent_eq ex_parent_1
       (fst (build_parent_for_node ([ex_parent_1], [1 \<mapsto> ''n1'']) ex_parent_3 ''n3''))"
proof -
  have e: "parent_eq ex_parent_1 ex_parent_2"
    by (simp add: ex_parent_1_def ex_parent_2_def add_copy_local_location_def new_offset_def)
  have ne: "\<not> parent_eq ex_parent_1 ex_parent_3"
    by (simp add: ex_parent_1_def ex_parent_3_def add_copy_local_location_def new_offset_def
          fun_eq_iff)
  have id1: "obj_id ex_parent_1 = 1"
    by (simp add: ex_parent_1_def add_copy_local_location_def new_offset_def)
  have first: "build_parent_for_node ([], Map.empty) ex_parent_1 ''n1''
                 = (ex_parent_1, ([ex_parent_1], [1 \<mapsto> ''n1'']))"
    by (simp add: build_parent_for_node_def id1)
  obtain o2 c2 where second:
    "build_parent_for_node ([ex_parent_1], [1 \<mapsto> ''n1'']) ex_parent_2 ''n2'' = (o2, c2)"
    by (cases "build_parent_for_node ([ex_parent_1], [1 \<mapsto> ''n1'']) ex_parent_2 ''n2''")
  obtain o3 c3 where third:
    "build_parent_for_node ([ex_parent_1], [1 \<mapsto> ''n1'']) ex_parent_3 ''n3'' = (o3, c3)"
    by (cases "build_parent_for_node ([ex_parent_1], [1 \<mapsto> ''n1'']) ex_parent_3 ''n3''")
  from build_parent_for_node_dedup[OF first second] e
  have "o2 = ex_parent_1" "c2 = ([ex_parent_1], [1 \<mapsto> ''n1''])" by simp_all
  moreover from build_parent_for_node_dedup[OF first third] ne
  have "\<not> parent_eq ex_parent_1 o3" by simp
  ultimately show ?thesis using e ne first second third by simp
qed

text \<open>
  C10. A \<open>ControlBoneParentOffset\<close> as its constructor leaves it, with no contribution added,
  generates no bone, and its output bone is the output bone of the parent it wraps.
\<close>

theorem offset_without_contributions:
  "generate_bones make_bone make_derived_name node_name (new_offset i rg par nd)
     = Inr (ControlBoneParentOffset i rg par nd [] [] [] (Some [])) \<and>
   output_bone (ControlBoneParentOffset i rg par nd [] [] [] (Some [])) = output_bone par"
  by (simp add: generate_bones_def new_offset_def)

theorem offset_without_contributions_witness:
  "generate_bones (\<lambda>n nm ori. nm) (\<lambda>nm. nm @ ''_poffset'') (\<lambda>n. ''ctrl'')
     (new_offset 1 0 (ControlBoneParentOrg 0 ''root'') 0)
     = Inr (ControlBoneParentOffset 1 0 (ControlBoneParentOrg 0 ''root'') 0 [] [] [] (Some [])) \<and>
   output_bone (ControlBoneParentOffset 1 0 (ControlBoneParentOrg 0 ''root'') 0 [] [] [] (Some []))
     = Inr ''root''"
  using offset_without_contributions[of "\<lambda>n nm ori. nm" "\<lambda>nm. nm @ ''_poffset''" "\<lambda>n. ''ctrl''"
          1 0 "ControlBoneParentOrg 0 ''root''" 0]
  by simp

text \<open>
  C4. The claim: a cluster with two members of incomparable group classes raises the
  configuration error, and the message identifies the base bones of both rigs. With a class
  that derives from both incomparable classes first in the cluster no error is raised; and
  the error, when raised, carries the name and the base bone of one member only, the one at
  which the conflict is found.
\<close>

theorem group_class_conflict_counterexample:
  "find_group_class ex_issubclass_diamond ex_rigs ex_class_nodes
     (make_merge_list ex_slot ex_class_nodes {0, 1, 2}) = Inr 3 \<and>
   \<not> ex_issubclass_diamond (group_class (ex_class_nodes ! 1)) (group_class (ex_class_nodes ! 2)) \<and>
   \<not> ex_issubclass_diamond (group_class (ex_class_nodes ! 2)) (group_class (ex_class_nodes ! 1)) \<and>
   find_group_class ex_issubclass_tree ex_rigs ex_class_nodes
     (make_merge_list ex_slot ex_class_nodes {1, 2}) = Inl (MetarigError 1 2 ''c'' ''chain_c'') \<and>
   base_bone (ex_rigs (rig (ex_class_nodes ! 1))) = ''chain_b''"
  by (simp add: make_merge_list_def ex_slot_def ex_class_nodes_def new_node_def find_group_class_def
        ex_issubclass_diamond_def ex_issubclass_tree_def ex_rigs_def)

text \<open>
  C4, amended: where the superclasses of every class are linearly ordered (single
  inheritance), a cluster with two members of incomparable group classes raises the
  configuration error; its message names two incomparable classes, the running group class
  and the class of the member at which the conflict is found, and the name and the rig base
  bone of that member.
\<close>

theorem group_class_conflict:
  assumes refl: "\<forall>c. sub c c"
    and trans: "\<forall>a b c. sub a b \<longrightarrow> sub b c \<longrightarrow> sub a c"
    and chain: "\<forall>c a b. sub c a \<longrightarrow> sub c b \<longrightarrow> sub a b \<or> sub b a"
    and mem: "a \<in> set merge_list" "b \<in> set merge_list"
    and inc: "\<not> sub (group_class (st ! a)) (group_class (st ! b))"
             "\<not> sub (group_class (st ! b)) (group_class (st ! a))"
  shows "\<exists>g item. item \<in> set merge_list \<and>
           find_group_class sub R st merge_list
             = Inl (MetarigError g (group_class (st ! item)) (name (st ! item))
                      (base_bone (R (rig (st ! item))))) \<and>
           g \<in> (\<lambda>m. group_class (st ! m)) ` set merge_list \<and>
           \<not> sub g (group_class (st ! item)) \<and> \<not> sub (group_class (st ! item)) g"
proof (cases merge_list)
  case Nil
  with mem show ?thesis by simp
next
  case (Cons first rest)
  let ?g0 = "group_class (st ! first)"
  have rf: "\<And>c. sub c c" using refl by simp
  have tr: "\<And>a b c. sub a b \<Longrightarrow> sub b c \<Longrightarrow> sub a c" using trans by blast
  have fg: "find_group_class sub R st merge_list = group_class_loop sub R st ?g0 rest"
    using Cons by (simp add: find_group_class_def)
  show ?thesis
  proof (cases "group_class_loop sub R st ?g0 rest")
    case (Inr g')
    from group_class_loop_Inr[of sub R st ?g0 rest g', OF rf tr Inr]
    have "sub g' ?g0" "\<forall>i \<in> set rest. sub g' (group_class (st ! i))"
      by simp_all
    then have all: "\<forall>i \<in> set merge_list. sub g' (group_class (st ! i))"
      using Cons by simp
    from all mem have "sub g' (group_class (st ! a))" "sub g' (group_class (st ! b))" by simp_all
    with chain have "sub (group_class (st ! a)) (group_class (st ! b))
                     \<or> sub (group_class (st ! b)) (group_class (st ! a))" by blast
    with inc show ?thesis by simp
  next
    case (Inl e)
    from group_class_loop_Inl[OF Inl] obtain g2 item where
      *: "item \<in> set rest"
         "e = MetarigError g2 (group_class (st ! item)) (name (st ! item))
                (base_bone (R (rig (st ! item))))"
         "g2 = ?g0 \<or> g2 \<in> (\<lambda>m. group_class (st ! m)) ` set rest"
         "\<not> sub g2 (group_class (st ! item))" "\<not> sub (group_class (st ! item)) g2"
      by blast
    have a1: "item \<in> set merge_list" using *(1) Cons by simp
    have a2: "find_group_class sub R st merge_list
             = Inl (MetarigError g2 (group_class (st ! item)) (name (st ! item))
                      (base_bone (R (rig (st ! item)))))"
      using fg Inl *(2) by simp
    have a3: "g2 \<in> (\<lambda>m. group_class (st ! m)) ` set merge_list"
      using *(3) Cons by auto
    from a1 a2 a3 *(4,5) show ?thesis by blast
  qed
qed

theorem group_class_conflict_witness:
  "\<exists>g item. item \<in> set [1, 2] \<and>
     find_group_class ex_issubclass_tree ex_rigs ex_class_nodes [1, 2]
       = Inl (MetarigError g (group_class (ex_class_nodes ! item)) (name (ex_class_nodes ! item))
                (base_bone (ex_rigs (rig (ex_class_nodes ! item))))) \<and>
     g \<in> (\<lambda>m. group_class (ex_class_nodes ! m)) ` set [1, 2] \<and>
     \<not> ex_issubclass_tree g (group_class (ex_class_nodes ! item)) \<and>
     \<not> ex_issubclass_tree (group_class (ex_class_nodes ! item)) g"
proof -
  have 1: "\<forall>c. ex_issubclass_tree c c"
    by (simp add: ex_issubclass_tree_def)
  have 2: "\<forall>a b c. ex_issubclass_tree a b \<longrightarrow> ex_issubclass_tree b c \<longrightarrow> ex_issubclass_tree a c"
    by (auto simp: ex_issubclass_tree_def)
  have 3: "\<forall>c a b. ex_issubclass_tree c a \<longrightarrow> ex_issubclass_tree c b
          \<longrightarrow> ex_issubclass_tree a b \<or> ex_issubclass_tree b a"
    by (auto simp: ex_issubclass_tree_def)
  have 4: "1 \<in> set [1, 2::nat]" "2 \<in> set [1, 2::nat]"
    by simp_all
  have 5: "\<not> ex_issubclass_tree (group_class (ex_class_nodes ! 1)) (group_class (ex_class_nodes ! 2))"
    "\<not> ex_issubclass_tree (group_class (ex_class_nodes ! 2)) (group_class (ex_class_nodes ! 1))"
    by (simp_all add: ex_issubclass_tree_def ex_class_nodes_def new_node_def)
  show ?thesis
    by (rule group_class_conflict[of ex_issubclass_tree 1 "[1, 2]" 2 ex_class_nodes ex_rigs,
          OF 1 2 3 4 5])
qed

text \<open>
  C5. The claim: a finished master and its followers belong to pairwise distinct rigs. Two
  nodes of one rig that both choose the node of another rig as their target become followers
  of the same master.
\<close>

theorem build_followers_distinct_rigs_counterexample:
  "case build ex_rigs ex_shared_rig_nodes [0, 1, 2] [] of
     Inr (st', fin', sf) \<Rightarrow>
       sf = [2] \<and> merged (st' ! 2) = [0, 1] \<and> rig (st' ! 0) = rig (st' ! 1)
   | Inl e \<Rightarrow> False"
proof -
  obtain st' fin' sf where ev: "build ex_rigs ex_shared_rig_nodes [0, 1, 2] [] = Inr (st', fin', sf)"
    using ex_shared_rig_build by (auto split: sum.splits)
  with ex_shared_rig_build
  have "sf = [2]" "map merged st' = [ [], [], [0, 1] ]" "map rig st' = [0, 0, 1]"
    by simp_all
  then have "sf = [2]" "map merged st' ! 2 = [0, 1]" "map rig st' ! 0 = map rig st' ! 1"
      "length st' = 3"
    by (simp_all, metis length_map length_Cons list.size(3) numeral_3_eq_3)
  then show ?thesis using ev by simp
qed

text \<open>
  C5, amended: in every merged cluster that \<open>MergeGroup.build\<close> produces from nodes that were
  not merged before, no main node is merged into a node of its own rig: every follower of a
  finished master belongs to another rig than the master and is merged into that master.
\<close>

theorem build_follower_other_rig:
  assumes "build R st grp fin = Inr (st', fin', sf)"
    and "\<forall>n \<in> set grp. n < length st"
    and "\<forall>n \<in> set grp. merged (st ! n) = []"
  shows "\<forall>m \<in> set sf. \<forall>c \<in> set (merged (st' ! m)).
           rig (st' ! c) \<noteq> rig (st' ! m) \<and> merged_into (st' ! c) = Some m"
  using build_good[OF assms] by (simp add: good_master_def)

theorem build_follower_other_rig_witness:
  "case build ex_rigs ex_shared_rig_nodes [0, 1, 2] [] of
     Inr (st', fin', sf) \<Rightarrow>
       sf = [2] \<and> merged (st' ! 2) = [0, 1] \<and>
       rig (st' ! 0) \<noteq> rig (st' ! 2) \<and> rig (st' ! 1) \<noteq> rig (st' ! 2) \<and>
       merged_into (st' ! 0) = Some 2 \<and> merged_into (st' ! 1) = Some 2
   | Inl e \<Rightarrow> False"
proof -
  obtain st' fin' sf where ev: "build ex_rigs ex_shared_rig_nodes [0, 1, 2] [] = Inr (st', fin', sf)"
    using ex_shared_rig_build by (auto split: sum.splits)
  with ex_shared_rig_build have sf: "sf = [2]" and mm: "map merged st' = [ [], [], [0, 1] ]"
    by simp_all
  from mm have "length st' = 3" by (metis length_map length_Cons list.size(3) numeral_3_eq_3)
  with mm have m2: "merged (st' ! 2) = [0, 1]" by (metis nth_map lessI numeral_3_eq_3 nth_Cons_0 nth_Cons_Suc numeral_2_eq_2)
  from build_follower_other_rig[OF ev ex_shared_rig_wf]
  have "\<forall>m \<in> set sf. \<forall>c \<in> set (merged (st' ! m)).
           rig (st' ! c) \<noteq> rig (st' ! m) \<and> merged_into (st' ! c) = Some m" .
  with sf m2 show ?thesis using ev by simp
qed

text \<open>
  C6. When \<open>MergeGroup.build\<close> has finished a master, on nodes that were not merged before, the
  point of the master is the centroid of its own original point and the original points of
  its children, and every child has the point of the master.
\<close>

theorem build_master_centroid:
  assumes "build R st grp fin = Inr (st', fin', sf)"
    and "\<forall>n \<in> set grp. n < length st"
    and "\<forall>n \<in> set grp. merged (st ! n) = []"
  shows "\<forall>m \<in> set sf.
           point (st' ! m) =
             vec_div (vec_add (point (st ! m)) (vec_sum (\<lambda>c. point (st ! c)) (set (merged (st' ! m)))))
                     (real (card (set (merged (st' ! m))) + 1)) \<and>
           (\<forall>c \<in> set (merged (st' ! m)). point (st' ! c) = point (st' ! m))"
  using build_good[OF assms] by (simp add: good_master_def centroid_def)

theorem build_master_centroid_witness:
  "case build ex_rigs ex_shared_rig_nodes [0, 1, 2] [] of
     Inr (st', fin', sf) \<Rightarrow>
       sf = [2] \<and> merged (st' ! 2) = [0, 1] \<and> point (st' ! 2) = (0, 1, 1) \<and>
       point (st' ! 0) = point (st' ! 2) \<and> point (st' ! 1) = point (st' ! 2)
   | Inl e \<Rightarrow> False"
proof -
  obtain st' fin' sf where ev: "build ex_rigs ex_shared_rig_nodes [0, 1, 2] [] = Inr (st', fin', sf)"
    using ex_shared_rig_build by (auto split: sum.splits)
  with ex_shared_rig_build have sf: "sf = [2]" and mm: "map merged st' = [ [], [], [0, 1] ]"
    by simp_all
  from mm have "length st' = 3" by (metis length_map length_Cons list.size(3) numeral_3_eq_3)
  with mm have m2: "merged (st' ! 2) = [0, 1]" by (metis nth_map lessI numeral_3_eq_3 nth_Cons_0 nth_Cons_Suc numeral_2_eq_2)
  from build_master_centroid[OF ev ex_shared_rig_wf]
  have "\<forall>m \<in> set sf.
           point (st' ! m) =
             vec_div (vec_add (point (ex_shared_rig_nodes ! m))
                        (vec_sum (\<lambda>c. point (ex_shared_rig_nodes ! c)) (set (merged (st' ! m)))))
                     (real (card (set (merged (st' ! m))) + 1)) \<and>
           (\<forall>c \<in> set (merged (st' ! m)). point (st' ! c) = point (st' ! m))" .
  with sf m2 have "point (st' ! 2) = (0, 1, 1)" "point (st' ! 0) = point (st' ! 2)"
      "point (st' ! 1) = point (st' ! 2)"
    by (simp_all add: ex_shared_rig_nodes_def new_node_def vec_sum_def vec_add_def vec_div_def)
  with sf m2 show ?thesis using ev by simp
qed

text \<open>
  C3. When \<open>NodeMerger.initialize\<close> returns, the node lists of its groups cover all registered
  nodes and are pairwise disjoint, and the group of a node holds exactly the nodes that a
  chain of steps of length at most \<open>epsilon\<close> reaches from it, by the points at registration:
  nodes connected by such a chain share a group, and no group holds a node of the closure of
  another one.
\<close>

theorem initialize_clusters_partition:
  assumes "initialize slot sub R m = Inr m'"
  shows "(\<Union>g \<in> set (groups m'). set (group_nodes g)) = {..<length (nodes m)} \<and>
         (\<forall>p < length (groups m'). \<forall>q < length (groups m'). p \<noteq> q \<longrightarrow>
            set (group_nodes (groups m' ! p)) \<inter> set (group_nodes (groups m' ! q)) = {}) \<and>
         (\<forall>g \<in> set (groups m'). \<forall>a \<in> set (group_nodes g).
            set (group_nodes g) = (near (map point (nodes m)))\<^sup>* `` {a}) \<and>
         (\<forall>a < length (nodes m). \<forall>b. (a, b) \<in> (near (map point (nodes m)))\<^sup>* \<longrightarrow>
            (\<exists>g \<in> set (groups m'). a \<in> set (group_nodes g) \<and> b \<in> set (group_nodes g)))"
proof -
  let ?tree = "map point (nodes m)"
  let ?n = "length (nodes m)"
  from assms obtain st processed fin grps where
    il: "initialize_loop slot sub R ?tree [0..<?n] (nodes m) {} [] [] = Inr (st, processed, fin, grps)"
    and m': "m' = \<lparr>nodes = st, final_nodes = fin, groups = grps, frozen = True\<rparr>"
    by (auto simp: initialize_def Let_def split: sum.splits prod.splits)
  have i0: "cluster_inv ?tree (nodes m) {} []" by (simp add: cluster_inv_def)
  have "\<forall>i \<in> set [0..<?n]. i < length ?tree" by simp
  from initialize_loop_inv[OF il i0 this]
  have inv: "cluster_inv ?tree st processed grps" and sub: "set [0..<?n] \<subseteq> processed"
    by simp_all
  from inv have psub: "processed \<subseteq> {..<?n}"
    and un: "(\<Union>g \<in> set grps. set (group_nodes g)) = processed"
    and dis: "\<forall>p < length grps. \<forall>q < length grps. p \<noteq> q \<longrightarrow>
         set (group_nodes (grps ! p)) \<inter> set (group_nodes (grps ! q)) = {}"
    and comp: "\<forall>g \<in> set grps. \<forall>a \<in> set (group_nodes g).
                 set (group_nodes g) = component ?tree a"
    by (simp_all add: cluster_inv_def)
  from psub sub have pr: "processed = {..<?n}" by auto
  have c1: "(\<Union>g \<in> set grps. set (group_nodes g)) = {..<?n}" using un pr by simp
  have c3: "\<forall>g \<in> set grps. \<forall>a \<in> set (group_nodes g).
              set (group_nodes g) = (near ?tree)\<^sup>* `` {a}"
    using comp by (simp add: component_def)
  have c4: "\<forall>a < ?n. \<forall>b. (a, b) \<in> (near ?tree)\<^sup>* \<longrightarrow>
              (\<exists>g \<in> set grps. a \<in> set (group_nodes g) \<and> b \<in> set (group_nodes g))"
  proof (intro allI impI)
    fix a b assume a: "a < ?n" and ab: "(a, b) \<in> (near ?tree)\<^sup>*"
    from a c1 obtain g where g: "g \<in> set grps" "a \<in> set (group_nodes g)" by blast
    with c3 have "set (group_nodes g) = (near ?tree)\<^sup>* `` {a}" by blast
    with ab have "b \<in> set (group_nodes g)" by blast
    with g show "\<exists>g \<in> set grps. a \<in> set (group_nodes g) \<and> b \<in> set (group_nodes g)" by blast
  qed
  from c1 dis c3 c4 show ?thesis by (simp add: m')
qed

theorem initialize_clusters_partition_witness:
  "(case initialize ex_slot ex_issubclass_tree ex_rigs ex_merger of
      Inr m' \<Rightarrow>
        map group_nodes (groups m') = [ [0, 1], [2] ] \<and>
        (\<Union>g \<in> set (groups m'). set (group_nodes g)) = {..<3} \<and>
        set (group_nodes (groups m' ! 0)) \<inter> set (group_nodes (groups m' ! 1)) = {} \<and>
        set (group_nodes (groups m' ! 0)) = (near (map point (nodes ex_merger)))\<^sup>* `` {0}
    | Inl e \<Rightarrow> False)"
proof -
  note ev = ex_merger_initialize
  let ?m' = "\<lparr>nodes = ex_merger_store2, final_nodes = [0, 2],
          groups = [\<lparr>group_cls = 0, group_nodes = [0, 1], group_final_nodes = [0]\<rparr>,
                    \<lparr>group_cls = 0, group_nodes = [2], group_final_nodes = [2]\<rparr>],
          frozen = True\<rparr>"
  from initialize_clusters_partition[OF ev]
  have 1: "(\<Union>g \<in> set (groups ?m'). set (group_nodes g)) = {..<length (nodes ex_merger)}"
    and 2: "\<forall>p < length (groups ?m'). \<forall>q < length (groups ?m'). p \<noteq> q \<longrightarrow>
            set (group_nodes (groups ?m' ! p)) \<inter> set (group_nodes (groups ?m' ! q)) = {}"
    and 3: "\<forall>g \<in> set (groups ?m'). \<forall>a \<in> set (group_nodes g).
            set (group_nodes g) = (near (map point (nodes ex_merger)))\<^sup>* `` {a}"
    by blast+
  from 1 have a: "(\<Union>g \<in> set (groups ?m'). set (group_nodes g)) = {..<3}"
    by (simp only: ex_merger_length)
  from 2 have b: "set (group_nodes (groups ?m' ! 0)) \<inter> set (group_nodes (groups ?m' ! 1)) = {}"
    by simp
  from 3 have c: "set (group_nodes (groups ?m' ! 0)) = (near (map point (nodes ex_merger)))\<^sup>* `` {0}"
    by simp
  show ?thesis
    apply (simp only: ev sum.case)
    apply (intro conjI)
       apply simp
      apply (rule a)
     apply (rule b)
    apply (rule c)
    done
qed

text \<open>
  C7. The claim: the size of a master is the average of the sizes of its mirror siblings of
  the highest icon. For a master on the left with the icon \<open>TWEAK\<close> and the size 1, whose
  mirror on the right has the icon \<open>CUSTOM\<close> and the size 2, that average is 2, the size of the
  one mirror sibling of the highest icon; \<open>initialize\<close> gives the master the size 3/2, the mean
  over both mirror siblings.
\<close>

theorem master_size_top_tier_counterexample:
  "build ex_mirror_rigs ex_tier_nodes [0, 1, 2] [] = Inr (ex_tier_merged, [0], [0]) \<and>
   (case initialize_size_rotation ex_mirror_rigs ex_tier_merged 0 of
      Inr st' \<Rightarrow> node_size (st' ! 0) = 3 / 2
    | Inl e \<Rightarrow> False) \<and>
   spec_master_size ex_tier_merged 0 = 2"
proof -
  from initialize_size_rotation_Inr[OF ex_tier_facts, of ex_mirror_rigs]
  obtain st' where ev: "initialize_size_rotation ex_mirror_rigs ex_tier_merged 0 = Inr st'"
    and sz: "node_size (st' ! 0) =
       sum_list (map (\<lambda>n. node_size (ex_tier_merged ! n)) [0, 1]) / 2"
    by auto
  from sz have s1: "node_size (st' ! 0) = 3 / 2"
    by (simp add: ex_tier_sizes ex_tier_sizes(2)[unfolded One_nat_def])
  have s2: "spec_master_size ex_tier_merged 0 = 2"
    by (simp add: spec_master_size_def ex_tier_facts(3) ex_tier_fields ex_tier_sizes
          ex_tier_fields(2,5)[unfolded One_nat_def] ex_tier_sizes(2)[unfolded One_nat_def])
  from ev s1 s2 ex_tier_build show ?thesis by simp
qed





end
